theory Spec2Isabelle
  imports Complex_Main "HOL-Library.Word"
begin

unbundle bit_operations_syntax

section \<open>Random-number substrate (rng.c)\<close>

text \<open>
  The generator state is the C struct \<^verbatim>\<open>mco_rng { uint64_t s[4]; }\<close>; the four array
  cells are the four fields of the record.  Every C function that mutates the state through a
  pointer returns the new state next to its result.  The doubles it produces are modelled as
  real numbers: a uniform is a 53-bit integer scaled by a power of two, which is exact.
\<close>

type_synonym u64 = "64 word"
type_synonym u32 = "32 word"

record mco_rng =
  s_0 :: u64
  s_1 :: u64
  s_2 :: u64
  s_3 :: u64

text \<open>\<^verbatim>\<open>splitmix64(uint64_t *state)\<close>: returns the output word and the advanced state.\<close>

definition splitmix64 :: "u64 \<Rightarrow> u64 \<times> u64" where
  "splitmix64 state =
     (let st = state + 0x9e3779b97f4a7c15;
          z1 = (st XOR drop_bit 30 st) * 0xbf58476d1ce4e5b9;
          z2 = (z1 XOR drop_bit 27 z1) * 0x94d049bb133111eb
      in (z2 XOR drop_bit 31 z2, st))"

definition rotl :: "u64 \<Rightarrow> nat \<Rightarrow> u64" where
  "rotl x k = push_bit k x OR drop_bit (64 - k) x"

text \<open>\<^verbatim>\<open>mco_rng_next\<close>: the xoshiro256** step, returning the output and the new state.\<close>

definition mco_rng_next :: "mco_rng \<Rightarrow> u64 \<times> mco_rng" where
  "mco_rng_next rng =
     (let result = rotl (s_1 rng * 5) 7 * 9;
          t = push_bit 17 (s_1 rng);
          a2 = s_2 rng XOR s_0 rng;
          a3 = s_3 rng XOR s_1 rng;
          a1 = s_1 rng XOR a2;
          a0 = s_0 rng XOR a3;
          b2 = a2 XOR t;
          b3 = rotl a3 45
      in (result, \<lparr>s_0 = a0, s_1 = a1, s_2 = b2, s_3 = b3\<rparr>))"

text \<open>\<^verbatim>\<open>mco_rng_seed\<close>: four draws of splitmix64, then the all-zero guard.\<close>

definition mco_rng_seed :: "u64 \<Rightarrow> mco_rng" where
  "mco_rng_seed seed =
     (let (w0, sm1) = splitmix64 seed;
          (w1, sm2) = splitmix64 sm1;
          (w2, sm3) = splitmix64 sm2;
          (w3, sm4) = splitmix64 sm3
      in if w0 = 0 \<and> w1 = 0 \<and> w2 = 0 \<and> w3 = 0
         then \<lparr>s_0 = 1, s_1 = w1, s_2 = w2, s_3 = w3\<rparr>
         else \<lparr>s_0 = w0, s_1 = w1, s_2 = w2, s_3 = w3\<rparr>)"

text \<open>\<^verbatim>\<open>mco_rng_uniform\<close>: the top 53 bits of a draw, scaled by \<open>2\<^sup>-\<^sup>5\<^sup>3\<close>.\<close>

definition mco_rng_uniform :: "mco_rng \<Rightarrow> real \<times> mco_rng" where
  "mco_rng_uniform rng =
     (let (x, rng1) = mco_rng_next rng
      in (real (unat (drop_bit 11 x)) * (1 / 2 ^ 53), rng1))"

text \<open>\<^verbatim>\<open>mco_rng_normal\<close>: Box-Muller on two uniforms, keeping the cosine branch.\<close>

definition mco_rng_normal :: "mco_rng \<Rightarrow> real \<times> mco_rng" where
  "mco_rng_normal rng =
     (let (u1, rng1) = mco_rng_uniform rng;
          (u2, rng2) = mco_rng_uniform rng1;
          v1 = 1 - u1;
          r = sqrt (- 2 * ln v1);
          theta = 2 * pi * u2
      in (r * cos theta, rng2))"

text \<open>
  \<^verbatim>\<open>mco_rng_jump\<close>: for every bit of the four-word jump polynomial, XOR the current state
  into the accumulator when the bit is set, and step the generator.
\<close>

definition JUMP :: "u64 list" where
  "JUMP = [0x180ec6d33cfd0aba, 0xd5a61266f0c9392c, 0xa9582618e03fc9aa, 0x39abdc4529b1661c]"

definition rng_xor :: "mco_rng \<Rightarrow> mco_rng \<Rightarrow> mco_rng" where
  "rng_xor a r = \<lparr>s_0 = s_0 a XOR s_0 r, s_1 = s_1 a XOR s_1 r,
                  s_2 = s_2 a XOR s_2 r, s_3 = s_3 a XOR s_3 r\<rparr>"

definition jump_bit :: "u64 \<Rightarrow> nat \<Rightarrow> mco_rng \<times> mco_rng \<Rightarrow> mco_rng \<times> mco_rng" where
  "jump_bit jw b st =
     (case st of (acc, rng) \<Rightarrow>
        ((if jw AND push_bit b 1 \<noteq> 0 then rng_xor acc rng else acc),
         snd (mco_rng_next rng)))"

definition mco_rng_jump :: "mco_rng \<Rightarrow> mco_rng" where
  "mco_rng_jump rng =
     fst (fold (\<lambda>jw st. fold (jump_bit jw) [0..<64] st) JUMP
            (\<lparr>s_0 = 0, s_1 = 0, s_2 = 0, s_3 = 0\<rparr>, rng))"

section \<open>Simulation context (context.h, context.c)\<close>

text \<open>
  The error enumeration of \<^verbatim>\<open>mcoptions.h\<close> with its C values, and the private context
  struct.  A context pointer is a \<open>mco_ctx option\<close>: \<open>None\<close> is the null pointer.  A
  function that writes through the pointer returns the pointer's new target.
\<close>

datatype mco_error = MCO_OK | MCO_ERR_NOMEM | MCO_ERR_INVALID_ARG | MCO_ERR_THREAD

fun error_code :: "mco_error \<Rightarrow> int" where
  "error_code MCO_OK = 0"
| "error_code MCO_ERR_NOMEM = 1"
| "error_code MCO_ERR_INVALID_ARG = 2"
| "error_code MCO_ERR_THREAD = 3"

record mco_ctx =
  num_simulations :: u64
  num_steps :: u64
  seed :: u64
  num_threads :: u32
  antithetic_enabled :: int
  control_variates_enabled :: int
  stratified_enabled :: int
  model :: int
  sabr_alpha :: real
  sabr_beta :: real
  sabr_rho :: real
  sabr_nu :: real
  rng :: mco_rng
  last_error :: mco_error

definition MCO_DEFAULT_SIMULATIONS :: u64 where "MCO_DEFAULT_SIMULATIONS = 100000"
definition MCO_DEFAULT_STEPS :: u64 where "MCO_DEFAULT_STEPS = 252"
definition MCO_DEFAULT_SEED :: u64 where "MCO_DEFAULT_SEED = 0xDEADBEEF"
definition MCO_DEFAULT_THREADS :: u32 where "MCO_DEFAULT_THREADS = 1"

text \<open>\<^verbatim>\<open>mco_ctx_new\<close>; the argument says whether the allocation succeeded.\<close>

definition mco_ctx_new :: "bool \<Rightarrow> mco_ctx option" where
  "mco_ctx_new alloc_ok =
     (if \<not> alloc_ok then None
      else Some \<lparr>num_simulations = MCO_DEFAULT_SIMULATIONS, num_steps = MCO_DEFAULT_STEPS,
                 seed = MCO_DEFAULT_SEED, num_threads = MCO_DEFAULT_THREADS,
                 antithetic_enabled = 0, control_variates_enabled = 0, stratified_enabled = 0,
                 model = 0, sabr_alpha = 0, sabr_beta = 1, sabr_rho = 0, sabr_nu = 0,
                 rng = mco_rng_seed MCO_DEFAULT_SEED, last_error = MCO_OK\<rparr>)"

definition mco_set_simulations :: "mco_ctx option \<Rightarrow> u64 \<Rightarrow> mco_ctx option" where
  "mco_set_simulations ctx n =
     (case ctx of None \<Rightarrow> None
      | Some c \<Rightarrow> if n > 0 then Some (c\<lparr>num_simulations := n\<rparr>) else Some c)"

definition mco_get_simulations :: "mco_ctx option \<Rightarrow> u64" where
  "mco_get_simulations ctx = (case ctx of Some c \<Rightarrow> num_simulations c | None \<Rightarrow> 0)"

definition mco_set_steps :: "mco_ctx option \<Rightarrow> u64 \<Rightarrow> mco_ctx option" where
  "mco_set_steps ctx n =
     (case ctx of None \<Rightarrow> None
      | Some c \<Rightarrow> if n > 0 then Some (c\<lparr>num_steps := n\<rparr>) else Some c)"

definition mco_get_steps :: "mco_ctx option \<Rightarrow> u64" where
  "mco_get_steps ctx = (case ctx of Some c \<Rightarrow> num_steps c | None \<Rightarrow> 0)"

definition mco_set_seed :: "mco_ctx option \<Rightarrow> u64 \<Rightarrow> mco_ctx option" where
  "mco_set_seed ctx sd =
     (case ctx of None \<Rightarrow> None
      | Some c \<Rightarrow> Some (c\<lparr>seed := sd, rng := mco_rng_seed sd\<rparr>))"

definition mco_get_seed :: "mco_ctx option \<Rightarrow> u64" where
  "mco_get_seed ctx = (case ctx of Some c \<Rightarrow> seed c | None \<Rightarrow> 0)"

definition mco_set_threads :: "mco_ctx option \<Rightarrow> u32 \<Rightarrow> mco_ctx option" where
  "mco_set_threads ctx n =
     (case ctx of None \<Rightarrow> None
      | Some c \<Rightarrow> Some (c\<lparr>num_threads := (if n > 0 then n else 1)\<rparr>))"

definition mco_get_threads :: "mco_ctx option \<Rightarrow> u32" where
  "mco_get_threads ctx = (case ctx of Some c \<Rightarrow> num_threads c | None \<Rightarrow> 0)"

definition mco_set_antithetic :: "mco_ctx option \<Rightarrow> int \<Rightarrow> mco_ctx option" where
  "mco_set_antithetic ctx enabled =
     (case ctx of None \<Rightarrow> None
      | Some c \<Rightarrow> Some (c\<lparr>antithetic_enabled := (if enabled \<noteq> 0 then 1 else 0)\<rparr>))"

definition mco_get_antithetic :: "mco_ctx option \<Rightarrow> int" where
  "mco_get_antithetic ctx = (case ctx of Some c \<Rightarrow> antithetic_enabled c | None \<Rightarrow> 0)"

definition mco_ctx_last_error :: "mco_ctx option \<Rightarrow> mco_error" where
  "mco_ctx_last_error ctx = (case ctx of Some c \<Rightarrow> last_error c | None \<Rightarrow> MCO_ERR_INVALID_ARG)"

section \<open>Binary64 arithmetic\<close>

text \<open>
  The control-variate accumulator below is nothing but double arithmetic: sums, products,
  quotients and one comparison.  Its results depend on the rounding of every operation, so
  it is modelled in IEEE 754 binary64 itself.  A finite double is the real number it
  denotes.  An operation computes the exact result and rounds it to the nearest double,
  ties to the even significand: the exponent of \<open>x\<close> is \<open>\<lfloor>log\<^sub>2 \<bar>x\<bar>\<rfloor>\<close>, not below \<open>-1022\<close>
  (gradual underflow), and the significand has 53 bits, so the spacing of the doubles around
  \<open>x\<close> is \<open>2\<close> to the exponent minus 52.

  When the rounded result is not a finite double (it reaches \<open>2\<^sup>1\<^sup>0\<^sup>2\<^sup>4\<close>), or the divisor is
  zero, the operation gives \<open>None\<close>: the C code goes on with an infinity or a NaN, and this
  model says nothing from there on.  The two zeros of binary64 are both the real \<open>0\<close>; they
  differ only under a division by zero.  Every operation is rounded on its own: a product
  and a sum are not contracted into one fused operation.
\<close>

definition round_even :: "real \<Rightarrow> int" where
  "round_even y =
     (let f = \<lfloor>y\<rfloor>; d = y - of_int f
      in if d < 1 / 2 then f else if 1 / 2 < d then f + 1 else if even f then f else f + 1)"

definition b64_exponent :: "real \<Rightarrow> int" where
  "b64_exponent x = max \<lfloor>log 2 \<bar>x\<bar>\<rfloor> (- 1022)"

definition b64_round :: "real \<Rightarrow> real option" where
  "b64_round x =
     (if x = 0 then Some 0
      else let q = 2 powi (b64_exponent x - 52);
               r = of_int (round_even (x / q)) * q
           in if \<bar>r\<bar> < 2 ^ 1024 then Some r else None)"

definition b64_add :: "real \<Rightarrow> real \<Rightarrow> real option" where
  "b64_add a b = b64_round (a + b)"

definition b64_sub :: "real \<Rightarrow> real \<Rightarrow> real option" where
  "b64_sub a b = b64_round (a - b)"

definition b64_mul :: "real \<Rightarrow> real \<Rightarrow> real option" where
  "b64_mul a b = b64_round (a * b)"

definition b64_div :: "real \<Rightarrow> real \<Rightarrow> real option" where
  "b64_div a b = (if b = 0 then None else b64_round (a / b))"

text \<open>The conversion \<^verbatim>\<open>(double)n\<close> of a 64-bit counter; it rounds from \<open>2\<^sup>5\<^sup>3\<close> on.\<close>

definition b64_of_u64 :: "u64 \<Rightarrow> real option" where
  "b64_of_u64 n = b64_round (real (unat n))"

text \<open>
  The constant \<^verbatim>\<open>1e-12\<close> of the source is the double nearest to \<open>10\<^sup>-\<^sup>1\<^sup>2\<close>, a little below it;
  \<^verbatim>\<open>1000000.1\<close> and \<^verbatim>\<open>0.1\<close>, used as inputs below, are the doubles nearest to these decimals.
\<close>

definition b64_1e_12 :: real where
  "b64_1e_12 = 4951760157141521 / 2 ^ 92"

definition z_million :: real where
  "z_million = 8589935450993459 / 2 ^ 33"

definition b64_0_1 :: real where
  "b64_0_1 = 3602879701896397 / 2 ^ 55"

section \<open>Control-variate accumulator (control_variates.h)\<close>

text \<open>
  The struct \<^verbatim>\<open>mco_cv_stats\<close>; its counter \<^verbatim>\<open>n\<close> is the field \<open>cv_n\<close>.  The operations follow
  the source statement by statement, in binary64: \<^verbatim>\<open>sum_xx += x * x\<close> rounds the product and
  then the sum.
\<close>

record mco_cv_stats =
  sum_x :: real
  sum_z :: real
  sum_xx :: real
  sum_zz :: real
  sum_xz :: real
  ez :: real
  cv_n :: u64

definition mco_cv_init :: "real \<Rightarrow> mco_cv_stats" where
  "mco_cv_init e = \<lparr>sum_x = 0, sum_z = 0, sum_xx = 0, sum_zz = 0, sum_xz = 0, ez = e, cv_n = 0\<rparr>"

definition mco_cv_add :: "mco_cv_stats \<Rightarrow> real \<Rightarrow> real \<Rightarrow> mco_cv_stats option" where
  "mco_cv_add stats x z =
     Option.bind (b64_add (sum_x stats) x) (\<lambda>sx.
     Option.bind (b64_add (sum_z stats) z) (\<lambda>sz.
     Option.bind (b64_mul x x) (\<lambda>xx.
     Option.bind (b64_add (sum_xx stats) xx) (\<lambda>sxx.
     Option.bind (b64_mul z z) (\<lambda>zz.
     Option.bind (b64_add (sum_zz stats) zz) (\<lambda>szz.
     Option.bind (b64_mul x z) (\<lambda>xz.
     Option.bind (b64_add (sum_xz stats) xz) (\<lambda>sxz.
       Some (stats\<lparr>sum_x := sx, sum_z := sz, sum_xx := sxx, sum_zz := szz, sum_xz := sxz,
                    cv_n := cv_n stats + 1\<rparr>)))))))))"

definition mco_cv_estimate :: "mco_cv_stats \<Rightarrow> real option" where
  "mco_cv_estimate stats =
     (if cv_n stats = 0 then Some 0
      else
        Option.bind (b64_of_u64 (cv_n stats)) (\<lambda>nn.
        Option.bind (b64_div (sum_x stats) nn) (\<lambda>mean_x.
        Option.bind (b64_div (sum_z stats) nn) (\<lambda>mean_z.
        Option.bind (b64_div (sum_zz stats) nn) (\<lambda>ezz.
        Option.bind (b64_mul mean_z mean_z) (\<lambda>mzz.
        Option.bind (b64_sub ezz mzz) (\<lambda>var_z.
          if var_z < b64_1e_12 then Some mean_x
          else
            Option.bind (b64_div (sum_xz stats) nn) (\<lambda>exz.
            Option.bind (b64_mul mean_x mean_z) (\<lambda>mxz.
            Option.bind (b64_sub exz mxz) (\<lambda>cov_xz.
            Option.bind (b64_div cov_xz var_z) (\<lambda>c.
            Option.bind (b64_sub mean_z (ez stats)) (\<lambda>d.
            Option.bind (b64_mul c d) (\<lambda>cd.
              b64_sub mean_x cd)))))))))))))"

text \<open>
  Accumulating a sequence of sample pairs, in order, from a fresh accumulator, and the
  estimate taken from it.
\<close>

fun cv_add_all :: "mco_cv_stats \<Rightarrow> (real \<times> real) list \<Rightarrow> mco_cv_stats option" where
  "cv_add_all st [] = Some st"
| "cv_add_all st (p # ps) = Option.bind (mco_cv_add st (fst p) (snd p)) (\<lambda>st1. cv_add_all st1 ps)"

definition cv_accumulate :: "real \<Rightarrow> (real \<times> real) list \<Rightarrow> mco_cv_stats option" where
  "cv_accumulate e ps = cv_add_all (mco_cv_init e) ps"








text \<open>
  A bound on the sums after \<open>j\<close> pairs of magnitude at most \<open>2\<^sup>3\<^sup>0\<^sup>0\<close>; it keeps every
  operation of the estimate inside the finite doubles.
\<close>

definition cv_within :: "nat \<Rightarrow> mco_cv_stats \<Rightarrow> bool" where
  "cv_within j st \<longleftrightarrow>
     \<bar>sum_x st\<bar> \<le> real j * 2 ^ 300 \<and> \<bar>sum_z st\<bar> \<le> real j * 2 ^ 300 \<and>
     \<bar>sum_xx st\<bar> \<le> real j * 2 ^ 600 \<and> \<bar>sum_zz st\<bar> \<le> real j * 2 ^ 600 \<and>
     \<bar>sum_xz st\<bar> \<le> real j * 2 ^ 600"

section \<open>Payoffs and the GBM model (payoff.h, gbm.h)\<close>

datatype mco_option_type = MCO_CALL | MCO_PUT

definition mco_payoff_call :: "real \<Rightarrow> real \<Rightarrow> real" where
  "mco_payoff_call spot strike = (if spot > strike then spot - strike else 0)"

definition mco_payoff_put :: "real \<Rightarrow> real \<Rightarrow> real" where
  "mco_payoff_put spot strike = (if strike > spot then strike - spot else 0)"

definition mco_payoff :: "real \<Rightarrow> real \<Rightarrow> mco_option_type \<Rightarrow> real" where
  "mco_payoff spot strike ty =
     (if ty = MCO_CALL then mco_payoff_call spot strike else mco_payoff_put spot strike)"

text \<open>
  The struct \<^verbatim>\<open>mco_gbm\<close>; its fields carry the prefix \<open>gbm_\<close>, those of \<^verbatim>\<open>mco_gbm_path\<close>
  the prefix \<open>gp_\<close>, since both structs have a \<^verbatim>\<open>spot\<close> and a \<^verbatim>\<open>discount\<close>.
\<close>

text \<open>
  From here on a double is a real number: rounding, infinities and NaN are outside this
  part of the model, and the results about the pricers concern what does not depend on
  them (which step is taken, what is written to the context, how cash flows are related).
  One difference is visible in the definitions themselves.  For a negative argument the C
  library's \<^verbatim>\<open>sqrt\<close> returns NaN, while \<^term>\<open>sqrt\<close> of HOL is the odd extension,
  \<open>sqrt (- x) = - sqrt x\<close>: with a negative time the diffusion term of the code, and every
  later vertex of a path, is NaN, and the model has a number there.  No statement below
  is made about the values of such paths.
\<close>

record mco_gbm =
  gbm_spot :: real
  gbm_rate :: real
  gbm_volatility :: real
  gbm_time :: real
  gbm_drift :: real
  gbm_diffusion :: real
  gbm_discount :: real

definition mco_gbm_init :: "real \<Rightarrow> real \<Rightarrow> real \<Rightarrow> real \<Rightarrow> mco_gbm" where
  "mco_gbm_init spot rate volatility tm =
     \<lparr>gbm_spot = spot, gbm_rate = rate, gbm_volatility = volatility, gbm_time = tm,
      gbm_drift = (rate - 0.5 * volatility * volatility) * tm,
      gbm_diffusion = volatility * sqrt tm,
      gbm_discount = exp (- rate * tm)\<rparr>"

definition mco_gbm_terminal :: "mco_gbm \<Rightarrow> real \<Rightarrow> real" where
  "mco_gbm_terminal m z = gbm_spot m * exp (gbm_drift m + gbm_diffusion m * z)"

definition mco_gbm_simulate :: "mco_gbm \<Rightarrow> mco_rng \<Rightarrow> real \<times> mco_rng" where
  "mco_gbm_simulate m g = (let (z, g1) = mco_rng_normal g in (mco_gbm_terminal m z, g1))"

record mco_gbm_path =
  gp_spot :: real
  gp_dt :: real
  gp_drift_dt :: real
  gp_diffusion_dt :: real
  gp_discount :: real
  gp_num_steps :: nat

definition mco_gbm_path_init :: "real \<Rightarrow> real \<Rightarrow> real \<Rightarrow> real \<Rightarrow> nat \<Rightarrow> mco_gbm_path" where
  "mco_gbm_path_init spot rate volatility tm nsteps =
     (let dt = tm / real nsteps
      in \<lparr>gp_spot = spot, gp_dt = dt,
          gp_drift_dt = (rate - 0.5 * volatility * volatility) * dt,
          gp_diffusion_dt = volatility * sqrt dt,
          gp_discount = exp (- rate * tm),
          gp_num_steps = nsteps\<rparr>)"

definition mco_gbm_step :: "mco_gbm_path \<Rightarrow> real \<Rightarrow> real \<Rightarrow> real" where
  "mco_gbm_step m current_spot z = current_spot * exp (gp_drift_dt m + gp_diffusion_dt m * z)"

text \<open>
  \<^verbatim>\<open>mco_gbm_simulate_path\<close> fills \<^verbatim>\<open>path[0..num_steps]\<close>.  The loop appends \<^verbatim>\<open>path[i+1]\<close>
  computed from \<^verbatim>\<open>path[i]\<close>, the last cell written; the first argument counts the
  remaining steps.
\<close>

fun gbm_path_loop :: "nat \<Rightarrow> mco_gbm_path \<Rightarrow> real \<Rightarrow> mco_rng \<Rightarrow> real list \<times> mco_rng" where
  "gbm_path_loop 0 m cur g = ([], g)"
| "gbm_path_loop (Suc k) m cur g =
     (let (z, g1) = mco_rng_normal g;
          nxt = mco_gbm_step m cur z;
          (rest, g2) = gbm_path_loop k m nxt g1
      in (nxt # rest, g2))"

definition mco_gbm_simulate_path :: "mco_gbm_path \<Rightarrow> mco_rng \<Rightarrow> real list \<times> mco_rng" where
  "mco_gbm_simulate_path m g =
     (let (rest, g1) = gbm_path_loop (gp_num_steps m) m (gp_spot m) g
      in (gp_spot m # rest, g1))"

section \<open>Antithetic pairing (antithetic.h)\<close>

fun antithetic_sum_loop ::
  "nat \<Rightarrow> mco_gbm \<Rightarrow> real \<Rightarrow> mco_option_type \<Rightarrow> mco_rng \<Rightarrow> real \<Rightarrow> real \<times> mco_rng" where
  "antithetic_sum_loop 0 m strike ty g acc = (acc, g)"
| "antithetic_sum_loop (Suc k) m strike ty g acc =
     (let (z, g1) = mco_rng_normal g;
          spot_plus = mco_gbm_terminal m z;
          spot_minus = mco_gbm_terminal m (- z);
          acc1 = acc + mco_payoff spot_plus strike ty;
          acc2 = acc1 + mco_payoff spot_minus strike ty
      in antithetic_sum_loop k m strike ty g1 acc2)"

definition mco_antithetic_european_sum ::
  "mco_gbm \<Rightarrow> mco_rng \<Rightarrow> real \<Rightarrow> mco_option_type \<Rightarrow> u64 \<Rightarrow> real \<times> mco_rng" where
  "mco_antithetic_european_sum m g strike ty num_pairs =
     antithetic_sum_loop (unat num_pairs) m strike ty g 0"

definition mco_antithetic_european ::
  "mco_gbm \<Rightarrow> mco_rng \<Rightarrow> real \<Rightarrow> mco_option_type \<Rightarrow> u64 \<Rightarrow> real \<times> mco_rng" where
  "mco_antithetic_european m g strike ty num_sims =
     (let np0 = num_sims div 2;
          num_pairs = (if np0 = 0 then 1 else np0);
          (total, g1) = mco_antithetic_european_sum m g strike ty num_pairs;
          mean = total / real (unat (2 * num_pairs))
      in (gbm_discount m * mean, g1))"

text \<open>The stream of standard normals drawn from a state: draw \<open>i\<close> and the state after \<open>i\<close> draws.\<close>

definition normal_state :: "mco_rng \<Rightarrow> nat \<Rightarrow> mco_rng" where
  "normal_state g i = ((\<lambda>h. snd (mco_rng_normal h)) ^^ i) g"

definition normal_draw :: "mco_rng \<Rightarrow> nat \<Rightarrow> real" where
  "normal_draw g i = fst (mco_rng_normal (normal_state g i))"

text \<open>The two payoffs of one antithetic pair, and the number of pairs for a path count.\<close>

definition pair_payoff :: "mco_gbm \<Rightarrow> real \<Rightarrow> mco_option_type \<Rightarrow> real \<Rightarrow> real" where
  "pair_payoff m strike ty z =
     mco_payoff (mco_gbm_terminal m z) strike ty + mco_payoff (mco_gbm_terminal m (- z)) strike ty"

definition antithetic_pairs :: "u64 \<Rightarrow> nat" where
  "antithetic_pairs num_sims = max (unat num_sims div 2) 1"

section \<open>Thread work units (thread_pool.h, thread_pool.c)\<close>

text \<open>
  The struct \<^verbatim>\<open>mco_thread_work\<close>.  Its generator field \<^verbatim>\<open>rng\<close> is \<open>w_rng\<close> and the
  copied option parameters carry the prefix \<open>w_\<close>, since the context has fields of the same
  names.
\<close>

record mco_thread_work =
  w_rng :: mco_rng
  start_sim :: u64
  end_sim :: u64
  partial_sum :: real
  partial_sum_sq :: real
  w_spot :: real
  w_strike :: real
  w_rate :: real
  w_volatility :: real
  w_time_to_maturity :: real
  w_option_type :: mco_option_type
  w_antithetic :: int

text \<open>
  The loop of \<^verbatim>\<open>mco_thread_work_init\<close>, with the 32-bit index \<open>i\<close>, the running start and
  the generator that is jumped after every unit.  A write past the end of the array is
  \<open>None\<close>.
\<close>

function thread_work_loop ::
  "u32 \<Rightarrow> u32 \<Rightarrow> u64 \<Rightarrow> u64 \<Rightarrow> mco_rng \<Rightarrow> u64 \<Rightarrow> mco_thread_work list
     \<Rightarrow> mco_thread_work list option" where
  "thread_work_loop i nthreads sims_per_thread remainder g start work =
     (if i < nthreads then
        (if unat i < length work then
           (let cnt = sims_per_thread + (if ucast i < remainder then 1 else 0);
                unit = (work ! unat i)\<lparr>w_rng := g, start_sim := start, end_sim := start + cnt,
                                        partial_sum := 0, partial_sum_sq := 0\<rparr>
            in thread_work_loop (i + 1) nthreads sims_per_thread remainder
                 (mco_rng_jump g) (start + cnt) (work[unat i := unit]))
         else None)
      else Some work)"
  by pat_completeness auto
termination
proof (relation "measure (\<lambda>(i, nthreads, _). unat nthreads - unat i)")
  show "wf (measure (\<lambda>(i, nthreads, _). unat nthreads - unat i))" by simp
next
  fix i nthreads :: u32 and sims_per_thread remainder :: u64 and g :: mco_rng
    and start :: u64 and work :: "mco_thread_work list" and cnt :: u64 and unit :: mco_thread_work
  assume lt: "i < nthreads"
  then have "unat i < unat nthreads" by (simp add: word_less_nat_alt)
  moreover have "unat nthreads < 2 ^ 32" using unsigned_less [of nthreads, where ?'a = nat] by simp
  ultimately have "unat (i + 1) = unat i + 1"
    by (simp add: unat_word_ariths)
  with \<open>unat i < unat nthreads\<close>
  show "((i + 1, nthreads, sims_per_thread, remainder, mco_rng_jump g, start + cnt,
          work[unat i := unit]),
         (i, nthreads, sims_per_thread, remainder, g, start, work))
        \<in> measure (\<lambda>(i, nthreads, _). unat nthreads - unat i)"
    by simp
qed

declare thread_work_loop.simps [simp del]

text \<open>
  \<^verbatim>\<open>mco_thread_work_init\<close>.  The unsigned division by a zero thread count is undefined in C
  and is \<open>None\<close> here.
\<close>

definition mco_thread_work_init ::
  "mco_thread_work list \<Rightarrow> u32 \<Rightarrow> mco_rng \<Rightarrow> u64 \<Rightarrow> mco_thread_work list option" where
  "mco_thread_work_init work nthreads base_rng total_sims =
     (if nthreads = 0 then None
      else let sims_per_thread = total_sims div ucast nthreads;
               remainder = total_sims mod ucast nthreads
           in thread_work_loop 0 nthreads sims_per_thread remainder base_rng 0 work)"

text \<open>
  The specification's start of unit \<open>k\<close> for \<open>q\<close> simulations per thread and remainder
  \<open>r\<close>: \<open>k\<close> full shares plus one extra for every earlier unit below the remainder.
\<close>

definition unit_bound :: "nat \<Rightarrow> nat \<Rightarrow> nat \<Rightarrow> nat" where
  "unit_bound q r k = k * q + min k r"

text \<open>The half-open range of simulation indices of a work unit.\<close>

definition sim_range :: "mco_thread_work \<Rightarrow> nat set" where
  "sim_range w = {unat (start_sim w) ..< unat (end_sim w)}"

text \<open>The two worker bodies; each works on its own unit only.\<close>

fun european_basic_loop ::
  "nat \<Rightarrow> mco_gbm \<Rightarrow> real \<Rightarrow> mco_option_type \<Rightarrow> mco_rng \<Rightarrow> real \<Rightarrow> real \<times> mco_rng" where
  "european_basic_loop 0 m strike ty g acc = (acc, g)"
| "european_basic_loop (Suc k) m strike ty g acc =
     (let (s_t, g1) = mco_gbm_simulate m g
      in european_basic_loop k m strike ty g1 (acc + mco_payoff s_t strike ty))"

definition worker_european_basic :: "mco_thread_work \<Rightarrow> mco_thread_work" where
  "worker_european_basic w =
     (let m = mco_gbm_init (w_spot w) (w_rate w) (w_volatility w) (w_time_to_maturity w);
          (total, g1) = european_basic_loop (unat (end_sim w - start_sim w)) m (w_strike w)
                          (w_option_type w) (w_rng w) 0
      in w\<lparr>w_rng := g1, partial_sum := total\<rparr>)"

definition worker_european_antithetic :: "mco_thread_work \<Rightarrow> mco_thread_work" where
  "worker_european_antithetic w =
     (let m = mco_gbm_init (w_spot w) (w_rate w) (w_volatility w) (w_time_to_maturity w);
          cnt = end_sim w - start_sim w;
          np0 = cnt div 2;
          num_pairs = (if np0 = 0 then 1 else np0);
          (total, g1) = mco_antithetic_european_sum m (w_rng w) (w_strike w)
                          (w_option_type w) num_pairs
      in w\<lparr>w_rng := g1, partial_sum := total, end_sim := start_sim w + 2 * num_pairs\<rparr>)"

text \<open>
  \<^verbatim>\<open>mco_parallel_european\<close>.  The environment is explicit: whether the two allocations
  succeed, and the index of the first \<^verbatim>\<open>pthread_create\<close> that fails, if any.  The workers
  share nothing, so running them is mapping the worker over the units.
\<close>

definition mco_parallel_european ::
  "mco_ctx \<Rightarrow> real \<Rightarrow> real \<Rightarrow> real \<Rightarrow> real \<Rightarrow> real \<Rightarrow> mco_option_type
     \<Rightarrow> bool \<Rightarrow> bool \<Rightarrow> nat option \<Rightarrow> mco_ctx \<times> real" where
  "mco_parallel_european c spot strike rate volatility tm ty work_ok threads_ok spawn_fail =
     (if \<not> work_ok then (c\<lparr>last_error := MCO_ERR_NOMEM\<rparr>, 0)
      else if \<not> threads_ok then (c\<lparr>last_error := MCO_ERR_NOMEM\<rparr>, 0)
      else
        let nt = num_threads c;
            zero_unit = \<lparr>w_rng = \<lparr>s_0 = 0, s_1 = 0, s_2 = 0, s_3 = 0\<rparr>, start_sim = 0,
                         end_sim = 0, partial_sum = 0, partial_sum_sq = 0, w_spot = 0,
                         w_strike = 0, w_rate = 0, w_volatility = 0, w_time_to_maturity = 0,
                         w_option_type = MCO_CALL, w_antithetic = 0\<rparr>
        in case mco_thread_work_init (replicate (unat nt) zero_unit) nt (rng c)
                  (num_simulations c) of
             None \<Rightarrow> (c, 0)
           | Some work0 \<Rightarrow>
               let work1 = map (\<lambda>w. w\<lparr>w_spot := spot, w_strike := strike, w_rate := rate,
                                       w_volatility := volatility, w_time_to_maturity := tm,
                                       w_option_type := ty,
                                       w_antithetic := antithetic_enabled c\<rparr>) work0;
                   worker = (if antithetic_enabled c \<noteq> 0 then worker_european_antithetic
                             else worker_european_basic)
               in if (case spawn_fail of Some k \<Rightarrow> k < unat nt | None \<Rightarrow> False)
                  then (c\<lparr>last_error := MCO_ERR_THREAD\<rparr>, 0)
                  else
                    let work2 = map worker work1;
                        total_sum = foldl (\<lambda>a w. a + partial_sum w) 0 work2;
                        total_paths = foldl (\<lambda>a w. a + (end_sim w - start_sim w))
                                        (0 :: u64) work2
                    in (c, exp (- rate * tm) * (total_sum / real (unat total_paths))))"

section \<open>European pricer (european.c)\<close>

text \<open>
  The single-threaded paths draw from the generator of the context itself, so they return
  the context with the generator advanced.
\<close>

definition price_european_basic ::
  "mco_ctx \<Rightarrow> real \<Rightarrow> real \<Rightarrow> real \<Rightarrow> real \<Rightarrow> real \<Rightarrow> mco_option_type \<Rightarrow> mco_ctx \<times> real" where
  "price_european_basic c spot strike rate volatility tm ty =
     (let m = mco_gbm_init spot rate volatility tm;
          cnt = num_simulations c;
          (total, g1) = european_basic_loop (unat cnt) m strike ty (rng c) 0
      in (c\<lparr>rng := g1\<rparr>, gbm_discount m * (total / real (unat cnt))))"

definition price_european_antithetic ::
  "mco_ctx \<Rightarrow> real \<Rightarrow> real \<Rightarrow> real \<Rightarrow> real \<Rightarrow> real \<Rightarrow> mco_option_type \<Rightarrow> mco_ctx \<times> real" where
  "price_european_antithetic c spot strike rate volatility tm ty =
     (let m = mco_gbm_init spot rate volatility tm;
          (price, g1) = mco_antithetic_european m (rng c) strike ty (num_simulations c)
      in (c\<lparr>rng := g1\<rparr>, price))"

definition mco_price_european ::
  "mco_ctx option \<Rightarrow> real \<Rightarrow> real \<Rightarrow> real \<Rightarrow> real \<Rightarrow> real \<Rightarrow> mco_option_type
     \<Rightarrow> bool \<Rightarrow> bool \<Rightarrow> nat option \<Rightarrow> mco_ctx option \<times> real" where
  "mco_price_european ctx spot strike rate volatility tm ty work_ok threads_ok spawn_fail =
     (case ctx of
        None \<Rightarrow> (None, 0)
      | Some c \<Rightarrow>
          if spot \<le> 0 \<or> strike \<le> 0 \<or> volatility < 0 \<or> tm < 0
          then (Some (c\<lparr>last_error := MCO_ERR_INVALID_ARG\<rparr>), 0)
          else if num_threads c > 1
          then (let (c1, p) = mco_parallel_european c spot strike rate volatility tm ty
                                work_ok threads_ok spawn_fail
                in (Some c1, p))
          else if antithetic_enabled c \<noteq> 0
          then (let (c1, p) = price_european_antithetic c spot strike rate volatility tm ty
                in (Some c1, p))
          else (let (c1, p) = price_european_basic c spot strike rate volatility tm ty
                in (Some c1, p)))"

section \<open>Digital pricer (digital.c)\<close>

datatype mco_digital_type = MCO_DIGITAL_CASH | MCO_DIGITAL_ASSET

fun digital_loop ::
  "nat \<Rightarrow> mco_gbm \<Rightarrow> real \<Rightarrow> real \<Rightarrow> mco_digital_type \<Rightarrow> mco_option_type \<Rightarrow> mco_rng \<Rightarrow> real
     \<Rightarrow> real" where
  "digital_loop 0 m strike payout dty oty g acc = acc"
| "digital_loop (Suc k) m strike payout dty oty g acc =
     (let (s_T, g1) = mco_gbm_simulate m g;
          itm = (if oty = MCO_CALL then s_T > strike else s_T < strike);
          payoff = (if itm then (if dty = MCO_DIGITAL_CASH then payout else s_T) else 0)
      in digital_loop k m strike payout dty oty g1 (acc + payoff))"

definition mco_price_digital ::
  "mco_ctx option \<Rightarrow> real \<Rightarrow> real \<Rightarrow> real \<Rightarrow> real \<Rightarrow> real \<Rightarrow> real \<Rightarrow> mco_digital_type
     \<Rightarrow> mco_option_type \<Rightarrow> mco_ctx option \<times> real" where
  "mco_price_digital ctx spot strike payout rate volatility tm dty oty =
     (case ctx of
        None \<Rightarrow> (None, 0)
      | Some c \<Rightarrow>
          let n_paths = num_simulations c;
              m = mco_gbm_init spot rate volatility tm;
              sum_payoff = digital_loop (unat n_paths) m strike payout dty oty (rng c) 0
          in (Some c, gbm_discount m * (sum_payoff / real (unat n_paths))))"

section \<open>Barrier pricer (barrier.c)\<close>

datatype mco_barrier_style =
  MCO_BARRIER_DOWN_IN | MCO_BARRIER_DOWN_OUT | MCO_BARRIER_UP_IN | MCO_BARRIER_UP_OUT

text \<open>
  The variance \<^verbatim>\<open>vol * vol * dt\<close> may be zero.  The numerator is negative there, so the
  quotient is \<open>-\<infinity>\<close> in C and its exponential is \<open>0\<close>; that case is written out, since a
  quotient by zero is \<open>0\<close> in HOL.  For a down barrier at or below zero the quotient
  \<^verbatim>\<open>s1 / h\<close> is infinite or negative in C and its logarithm an infinity or NaN; the value
  of the model there is not that of the code, and nothing below rests on it.
\<close>

definition bridge_hit_prob :: "real \<Rightarrow> real \<Rightarrow> real \<Rightarrow> real \<Rightarrow> real \<Rightarrow> bool \<Rightarrow> real" where
  "bridge_hit_prob s1 s2 h vol dt is_up_barrier =
     (if is_up_barrier then
        (if s1 \<ge> h \<or> s2 \<ge> h then 1
         else if s1 \<le> 0 \<or> s2 \<le> 0 then 0
         else let log1 = ln (h / s1); log2 = ln (h / s2)
              in if log1 \<le> 0 \<or> log2 \<le> 0 then 1
                 else let var = vol * vol * dt
                      in if var = 0 then 0 else exp (- 2 * log1 * log2 / var))
      else
        (if s1 \<le> h \<or> s2 \<le> h then 1
         else if s1 \<le> 0 \<or> s2 \<le> 0 then 0
         else let log1 = ln (s1 / h); log2 = ln (s2 / h)
              in if log1 \<le> 0 \<or> log2 \<le> 0 then 1
                 else let var = vol * vol * dt
                      in if var = 0 then 0 else exp (- 2 * log1 * log2 / var)))"

text \<open>
  The monitoring loop over the segments \<^verbatim>\<open>(path[j], path[j+1])\<close>, leaving at the first
  hit; it draws one uniform for every segment that passes the discrete check.
\<close>

fun barrier_hit_loop ::
  "real list \<Rightarrow> real \<Rightarrow> real \<Rightarrow> real \<Rightarrow> bool \<Rightarrow> mco_rng \<Rightarrow> bool \<times> mco_rng" where
  "barrier_hit_loop (s1 # s2 # rest) h vol dt is_up_barrier g =
     (if (if is_up_barrier then s1 \<ge> h \<or> s2 \<ge> h else s1 \<le> h \<or> s2 \<le> h) then (True, g)
      else let p_hit = bridge_hit_prob s1 s2 h vol dt is_up_barrier;
               (u, g1) = mco_rng_uniform g
           in if u < p_hit then (True, g1)
              else barrier_hit_loop (s2 # rest) h vol dt is_up_barrier g1)"
| "barrier_hit_loop path h vol dt is_up_barrier g = (False, g)"

fun barrier_paths_loop ::
  "nat \<Rightarrow> mco_gbm_path \<Rightarrow> nat \<Rightarrow> real \<Rightarrow> real \<Rightarrow> real \<Rightarrow> real \<Rightarrow> real \<Rightarrow> bool \<Rightarrow> bool
     \<Rightarrow> mco_option_type \<Rightarrow> mco_rng \<Rightarrow> real \<Rightarrow> real" where
  "barrier_paths_loop 0 m nsteps strike h rebate vol dt is_up_barrier is_knock_in oty g acc = acc"
| "barrier_paths_loop (Suc k) m nsteps strike h rebate vol dt is_up_barrier is_knock_in oty g acc =
     (let (path, g1) = mco_gbm_simulate_path m g;
          (barrier_hit, g2) = barrier_hit_loop path h vol dt is_up_barrier g1;
          terminal = path ! nsteps;
          payoff = (if is_knock_in
                    then (if barrier_hit then mco_payoff terminal strike oty else 0)
                    else (if \<not> barrier_hit then mco_payoff terminal strike oty else rebate))
      in barrier_paths_loop k m nsteps strike h rebate vol dt is_up_barrier is_knock_in oty g2
           (acc + payoff))"

definition mco_price_barrier ::
  "mco_ctx option \<Rightarrow> real \<Rightarrow> real \<Rightarrow> real \<Rightarrow> real \<Rightarrow> real \<Rightarrow> real \<Rightarrow> real \<Rightarrow> nat
     \<Rightarrow> mco_barrier_style \<Rightarrow> mco_option_type \<Rightarrow> bool \<Rightarrow> mco_ctx option \<times> real" where
  "mco_price_barrier ctx spot strike h rebate rate volatility tm nsteps bty oty path_ok =
     (case ctx of
        None \<Rightarrow> (None, 0)
      | Some c \<Rightarrow>
          if nsteps = 0 then (Some c, 0)
          else if \<not> path_ok then (Some (c\<lparr>last_error := MCO_ERR_NOMEM\<rparr>), 0)
          else
            let n_paths = num_simulations c;
                m = mco_gbm_path_init spot rate volatility tm nsteps;
                dt = tm / real nsteps;
                is_up_barrier = (bty = MCO_BARRIER_UP_IN \<or> bty = MCO_BARRIER_UP_OUT);
                is_knock_in = (bty = MCO_BARRIER_DOWN_IN \<or> bty = MCO_BARRIER_UP_IN);
                sum_payoff = barrier_paths_loop (unat n_paths) m nsteps strike h rebate
                               volatility dt is_up_barrier is_knock_in oty (rng c) 0
            in (Some c, gp_discount m * (sum_payoff / real (unat n_paths))))"

section \<open>Asian pricer (asian.c)\<close>

datatype mco_asian_type = MCO_ASIAN_ARITHMETIC | MCO_ASIAN_GEOMETRIC
datatype mco_asian_strike = MCO_ASIAN_FIXED_STRIKE | MCO_ASIAN_FLOATING_STRIKE

text \<open>The payoff of one path: the average runs over \<^verbatim>\<open>path[1..num_obs]\<close>.\<close>

definition asian_path_payoff ::
  "real list \<Rightarrow> nat \<Rightarrow> real \<Rightarrow> mco_asian_type \<Rightarrow> mco_asian_strike \<Rightarrow> mco_option_type \<Rightarrow> real" where
  "asian_path_payoff path num_obs strike aty sty oty =
     (let obs = take num_obs (tl path);
          avg = (if aty = MCO_ASIAN_ARITHMETIC
                 then foldl (\<lambda>a p. a + p) 0 obs / real num_obs
                 else exp (foldl (\<lambda>a p. a + ln p) 0 obs / real num_obs));
          terminal = path ! num_obs
      in if sty = MCO_ASIAN_FIXED_STRIKE then mco_payoff avg strike oty
         else if oty = MCO_CALL then max (terminal - avg) 0
         else max (avg - terminal) 0)"

fun asian_paths_loop ::
  "nat \<Rightarrow> mco_gbm_path \<Rightarrow> nat \<Rightarrow> real \<Rightarrow> mco_asian_type \<Rightarrow> mco_asian_strike
     \<Rightarrow> mco_option_type \<Rightarrow> mco_rng \<Rightarrow> real \<Rightarrow> real" where
  "asian_paths_loop 0 m num_obs strike aty sty oty g acc = acc"
| "asian_paths_loop (Suc k) m num_obs strike aty sty oty g acc =
     (let (path, g1) = mco_gbm_simulate_path m g
      in asian_paths_loop k m num_obs strike aty sty oty g1
           (acc + asian_path_payoff path num_obs strike aty sty oty))"

definition mco_price_asian ::
  "mco_ctx option \<Rightarrow> real \<Rightarrow> real \<Rightarrow> real \<Rightarrow> real \<Rightarrow> real \<Rightarrow> nat \<Rightarrow> mco_asian_type
     \<Rightarrow> mco_asian_strike \<Rightarrow> mco_option_type \<Rightarrow> bool \<Rightarrow> mco_ctx option \<times> real" where
  "mco_price_asian ctx spot strike rate volatility tm num_obs aty sty oty path_ok =
     (case ctx of
        None \<Rightarrow> (None, 0)
      | Some c \<Rightarrow>
          if num_obs = 0 then (Some c, 0)
          else if spot \<le> 0 \<or> strike \<le> 0 \<or> volatility < 0 \<or> tm < 0
          then (Some (c\<lparr>last_error := MCO_ERR_INVALID_ARG\<rparr>), 0)
          else if \<not> path_ok then (Some (c\<lparr>last_error := MCO_ERR_NOMEM\<rparr>), 0)
          else
            let n_paths = num_simulations c;
                m = mco_gbm_path_init spot rate volatility tm num_obs;
                sum_payoff = asian_paths_loop (unat n_paths) m num_obs strike aty sty oty
                               (rng c) 0
            in (Some c, gp_discount m * (sum_payoff / real (unat n_paths))))"

section \<open>Lookback pricer (lookback.c)\<close>

datatype mco_lookback_strike = MCO_LOOKBACK_FLOATING | MCO_LOOKBACK_FIXED

text \<open>The running minimum and maximum over \<^verbatim>\<open>path[1..num_steps]\<close>, started at \<^verbatim>\<open>path[0]\<close>.\<close>

fun minmax_loop :: "real list \<Rightarrow> real \<Rightarrow> real \<Rightarrow> real \<times> real" where
  "minmax_loop [] path_min path_max = (path_min, path_max)"
| "minmax_loop (p # ps) path_min path_max =
     minmax_loop ps (if p < path_min then p else path_min) (if p > path_max then p else path_max)"

definition lookback_path_payoff ::
  "real list \<Rightarrow> nat \<Rightarrow> real \<Rightarrow> mco_lookback_strike \<Rightarrow> mco_option_type \<Rightarrow> real" where
  "lookback_path_payoff path nsteps strike sty oty =
     (let (path_min, path_max) = minmax_loop (take nsteps (tl path)) (path ! 0) (path ! 0);
          terminal = path ! nsteps
      in if sty = MCO_LOOKBACK_FLOATING
         then (if oty = MCO_CALL then terminal - path_min else path_max - terminal)
         else (if oty = MCO_CALL then max (path_max - strike) 0 else max (strike - path_min) 0))"

fun lookback_paths_loop ::
  "nat \<Rightarrow> mco_gbm_path \<Rightarrow> nat \<Rightarrow> real \<Rightarrow> mco_lookback_strike \<Rightarrow> mco_option_type \<Rightarrow> mco_rng
     \<Rightarrow> real \<Rightarrow> real" where
  "lookback_paths_loop 0 m nsteps strike sty oty g acc = acc"
| "lookback_paths_loop (Suc k) m nsteps strike sty oty g acc =
     (let (path, g1) = mco_gbm_simulate_path m g
      in lookback_paths_loop k m nsteps strike sty oty g1
           (acc + lookback_path_payoff path nsteps strike sty oty))"

definition mco_price_lookback ::
  "mco_ctx option \<Rightarrow> real \<Rightarrow> real \<Rightarrow> real \<Rightarrow> real \<Rightarrow> real \<Rightarrow> nat \<Rightarrow> mco_lookback_strike
     \<Rightarrow> mco_option_type \<Rightarrow> bool \<Rightarrow> mco_ctx option \<times> real" where
  "mco_price_lookback ctx spot strike rate volatility tm nsteps sty oty path_ok =
     (case ctx of
        None \<Rightarrow> (None, 0)
      | Some c \<Rightarrow>
          if nsteps = 0 then (Some c, 0)
          else if \<not> path_ok then (Some (c\<lparr>last_error := MCO_ERR_NOMEM\<rparr>), 0)
          else
            let n_paths = num_simulations c;
                m = mco_gbm_path_init spot rate volatility tm nsteps;
                sum_payoff = lookback_paths_loop (unat n_paths) m nsteps strike sty oty (rng c) 0
            in (Some c, gp_discount m * (sum_payoff / real (unat n_paths))))"

section \<open>Least-squares Monte Carlo (lsm.h, lsm.c)\<close>

definition MCO_LSM_NUM_BASIS :: nat where
  "MCO_LSM_NUM_BASIS = 3"

definition mco_lsm_basis :: "real \<Rightarrow> real list" where
  "mco_lsm_basis x = [1, 1 - x, 1 - 2 * x + 0.5 * x * x]"

text \<open>
  \<^verbatim>\<open>mco_lsm_regress\<close>.  The design matrix is a list of rows.  First the normal equations
  \<open>A\<^sup>T A\<close> and \<open>A\<^sup>T b\<close>, one sample after the other.
\<close>

definition normal_eqs_row ::
  "nat \<Rightarrow> real list \<Rightarrow> real \<Rightarrow> real list list \<times> real list \<Rightarrow> real list list \<times> real list" where
  "normal_eqs_row nb row bi st =
     (case st of (AtA, Atb) \<Rightarrow>
        (map (\<lambda>j. map (\<lambda>k. AtA ! j ! k + row ! j * row ! k) [0..<nb]) [0..<nb],
         map (\<lambda>j. Atb ! j + row ! j * bi) [0..<nb]))"

definition normal_eqs :: "nat \<Rightarrow> real list list \<Rightarrow> real list \<Rightarrow> real list list \<times> real list" where
  "normal_eqs nb A b =
     fold (\<lambda>rb st. normal_eqs_row nb (fst rb) (snd rb) st) (zip A b)
       (replicate nb (replicate nb 0), replicate nb 0)"

text \<open>The search for the pivot row below the diagonal, keeping the first largest entry.\<close>

fun find_pivot :: "nat list \<Rightarrow> nat \<Rightarrow> real list list \<Rightarrow> nat \<Rightarrow> real \<Rightarrow> nat" where
  "find_pivot [] col aug max_row max_val = max_row"
| "find_pivot (r # rs) col aug max_row max_val =
     (if \<bar>aug ! r ! col\<bar> > max_val then find_pivot rs col aug r \<bar>aug ! r ! col\<bar>
      else find_pivot rs col aug max_row max_val)"

definition swap_rows :: "real list list \<Rightarrow> nat \<Rightarrow> nat \<Rightarrow> real list list" where
  "swap_rows aug a b = (if a \<noteq> b then aug[a := aug ! b, b := aug ! a] else aug)"

definition eliminate_row :: "nat \<Rightarrow> nat \<Rightarrow> real list list \<Rightarrow> nat \<Rightarrow> real list list" where
  "eliminate_row nb col aug r =
     (let factor = aug ! r ! col / aug ! col ! col
      in aug[r := map (\<lambda>j. if col \<le> j then aug ! r ! j - factor * aug ! col ! j
                            else aug ! r ! j) [0..<Suc nb]])"

text \<open>Forward elimination, column by column; \<open>None\<close> is the singular exit.\<close>

fun forward_elim :: "nat list \<Rightarrow> nat \<Rightarrow> real list list \<Rightarrow> real list list option" where
  "forward_elim [] nb aug = Some aug"
| "forward_elim (col # cols) nb aug =
     (let max_row = find_pivot [Suc col..<nb] col aug col \<bar>aug ! col ! col\<bar>;
          aug1 = swap_rows aug col max_row
      in if \<bar>aug1 ! col ! col\<bar> < 1 / 10 ^ 12 then None
         else forward_elim cols nb (fold (\<lambda>r a. eliminate_row nb col a r) [Suc col..<nb] aug1))"

fun back_subst :: "nat list \<Rightarrow> nat \<Rightarrow> real list list \<Rightarrow> real list \<Rightarrow> real list" where
  "back_subst [] nb aug coeffs = coeffs"
| "back_subst (i # rest) nb aug coeffs =
     (let c0 = aug ! i ! nb;
          c1 = fold (\<lambda>j acc. acc - aug ! i ! j * coeffs ! j) [Suc i..<nb] c0
      in back_subst rest nb aug (coeffs[i := c1 / aug ! i ! i]))"

text \<open>The return code of C (\<open>0\<close> or \<open>-1\<close>) and the coefficients written.\<close>

definition mco_lsm_regress :: "real list list \<Rightarrow> real list \<Rightarrow> nat \<Rightarrow> int \<times> real list" where
  "mco_lsm_regress A b nb =
     (let (AtA, Atb) = normal_eqs nb A b;
          aug = map (\<lambda>i. AtA ! i @ [Atb ! i]) [0..<nb]
      in case forward_elim [0..<nb] nb aug of
           None \<Rightarrow> (- 1, replicate nb 0)
         | Some aug1 \<Rightarrow> (0, back_subst (rev [0..<nb]) nb aug1 (replicate nb 0)))"

text \<open>Step 1 of \<^verbatim>\<open>mco_lsm_american\<close>: all paths, one after the other, from one generator.\<close>

fun lsm_gen_paths :: "nat \<Rightarrow> mco_gbm_path \<Rightarrow> mco_rng \<Rightarrow> real list list" where
  "lsm_gen_paths 0 m g = []"
| "lsm_gen_paths (Suc k) m g =
     (let (path, g1) = mco_gbm_simulate_path m g in path # lsm_gen_paths k m g1)"

text \<open>The scan for in-the-money paths at a step: indices, design rows and targets.\<close>

fun lsm_itm_loop ::
  "nat list \<Rightarrow> real list list \<Rightarrow> nat \<Rightarrow> real \<Rightarrow> mco_option_type \<Rightarrow> real list
     \<Rightarrow> nat list \<times> real list list \<times> real list \<Rightarrow> nat list \<times> real list list \<times> real list" where
  "lsm_itm_loop [] paths step strike ty cashflow st = st"
| "lsm_itm_loop (i # rest) paths step strike ty cashflow st =
     (case st of (itm_indices, A, Y) \<Rightarrow>
        (let s_t = paths ! i ! step;
             exercise_value = mco_payoff s_t strike ty
         in if exercise_value > 0
            then lsm_itm_loop rest paths step strike ty cashflow
                   (itm_indices @ [i], A @ [mco_lsm_basis (s_t / strike)], Y @ [cashflow ! i])
            else lsm_itm_loop rest paths step strike ty cashflow st))"

text \<open>The exercise decision over the in-the-money paths.\<close>

fun lsm_exercise_loop ::
  "nat list \<Rightarrow> real list list \<Rightarrow> nat \<Rightarrow> real \<Rightarrow> mco_option_type \<Rightarrow> real list
     \<Rightarrow> real list \<times> nat list \<Rightarrow> real list \<times> nat list" where
  "lsm_exercise_loop [] paths step strike ty coeffs st = st"
| "lsm_exercise_loop (i # rest) paths step strike ty coeffs st =
     (case st of (cashflow, exercise_time) \<Rightarrow>
        (let s_t = paths ! i ! step;
             exercise_value = mco_payoff s_t strike ty;
             basis = mco_lsm_basis (s_t / strike);
             continuation = fold (\<lambda>k acc. acc + coeffs ! k * basis ! k)
                              [0..<MCO_LSM_NUM_BASIS] 0
         in if exercise_value > continuation
            then lsm_exercise_loop rest paths step strike ty coeffs
                   (cashflow[i := exercise_value], exercise_time[i := step])
            else lsm_exercise_loop rest paths step strike ty coeffs st))"

text \<open>One pass of the backward loop, at \<open>step\<close>.\<close>

definition lsm_step ::
  "real list list \<Rightarrow> real \<Rightarrow> mco_option_type \<Rightarrow> real \<Rightarrow> nat \<Rightarrow> real list \<times> nat list
     \<Rightarrow> real list \<times> nat list" where
  "lsm_step paths strike ty df step st =
     (case st of (cashflow, exercise_time) \<Rightarrow>
        (let cashflow1 = map (\<lambda>v. v * df) cashflow;
             (itm_indices, A, Y) = lsm_itm_loop [0..<length paths] paths step strike ty
                                     cashflow1 ([], [], [])
         in if length itm_indices < MCO_LSM_NUM_BASIS then (cashflow1, exercise_time)
            else let (rc, coeffs) = mco_lsm_regress A Y MCO_LSM_NUM_BASIS
                 in if rc \<noteq> 0 then (cashflow1, exercise_time)
                    else lsm_exercise_loop itm_indices paths step strike ty coeffs
                           (cashflow1, exercise_time)))"

text \<open>The backward loop \<^verbatim>\<open>for (step = num_steps - 1; step >= 1; --step)\<close>.\<close>

fun lsm_backward ::
  "nat \<Rightarrow> real list list \<Rightarrow> real \<Rightarrow> mco_option_type \<Rightarrow> real \<Rightarrow> real list \<times> nat list
     \<Rightarrow> real list \<times> nat list" where
  "lsm_backward 0 paths strike ty df st = st"
| "lsm_backward (Suc k) paths strike ty df st =
     lsm_backward k paths strike ty df (lsm_step paths strike ty df (Suc k) st)"

text \<open>
  The state of \<^verbatim>\<open>mco_lsm_american\<close> just before the sum of step 4: the path table, the
  final cash flows and the exercise steps.
\<close>

definition lsm_final ::
  "mco_ctx \<Rightarrow> real \<Rightarrow> real \<Rightarrow> real \<Rightarrow> real \<Rightarrow> real \<Rightarrow> nat \<Rightarrow> mco_option_type
     \<Rightarrow> real list list \<times> real list \<times> nat list" where
  "lsm_final c spot strike rate volatility tm nsteps ty =
     (let n_paths = unat (num_simulations c);
          dt = tm / real nsteps;
          df = exp (- rate * dt);
          m = mco_gbm_path_init spot rate volatility tm nsteps;
          paths = lsm_gen_paths n_paths m (rng c);
          exercise_time0 = replicate n_paths nsteps;
          cashflow0 = map (\<lambda>path. mco_payoff (path ! nsteps) strike ty) paths;
          (cashflow1, exercise_time1) =
             lsm_backward (nsteps - 1) paths strike ty df (cashflow0, exercise_time0)
      in (paths, map (\<lambda>v. v * df) cashflow1, exercise_time1))"

text \<open>
  The invariant of the backward loop when the passes down to step \<open>k\<close> are done: path
  \<open>i\<close> carries the intrinsic payoff at its exercise step, discounted once for every step
  between that step and \<open>k\<close>.
\<close>

definition lsm_inv ::
  "real list list \<Rightarrow> real \<Rightarrow> mco_option_type \<Rightarrow> real \<Rightarrow> nat \<Rightarrow> nat \<Rightarrow> real list \<Rightarrow> nat list
     \<Rightarrow> bool" where
  "lsm_inv paths strike ty df nsteps k cashflow exercise_time =
     (length cashflow = length paths \<and> length exercise_time = length paths \<and>
      (\<forall>i < length paths.
          k \<le> exercise_time ! i \<and> exercise_time ! i \<le> nsteps \<and>
          cashflow ! i = mco_payoff (paths ! i ! (exercise_time ! i)) strike ty
                           * df ^ (exercise_time ! i - k)))"

text \<open>
  \<^verbatim>\<open>mco_lsm_american\<close>; the two flags say whether the first and the second group of
  allocations succeed.
\<close>

definition mco_lsm_american ::
  "mco_ctx option \<Rightarrow> real \<Rightarrow> real \<Rightarrow> real \<Rightarrow> real \<Rightarrow> real \<Rightarrow> nat \<Rightarrow> mco_option_type
     \<Rightarrow> bool \<Rightarrow> bool \<Rightarrow> mco_ctx option \<times> real" where
  "mco_lsm_american ctx spot strike rate volatility tm nsteps ty tables_ok regress_ok =
     (case ctx of
        None \<Rightarrow> (None, 0)
      | Some c \<Rightarrow>
          if nsteps = 0 then (Some c, 0)
          else if \<not> tables_ok then (Some (c\<lparr>last_error := MCO_ERR_NOMEM\<rparr>), 0)
          else if \<not> regress_ok then (Some (c\<lparr>last_error := MCO_ERR_NOMEM\<rparr>), 0)
          else
            let (paths, cashflow, exercise_time) =
                  lsm_final c spot strike rate volatility tm nsteps ty;
                total = foldl (\<lambda>a v. a + v) 0 cashflow
            in (Some c, total / real (unat (num_simulations c))))"

section \<open>American pricer (american.c)\<close>

definition MCO_DEFAULT_AMERICAN_STEPS :: nat where
  "MCO_DEFAULT_AMERICAN_STEPS = 52"

definition mco_price_american ::
  "mco_ctx option \<Rightarrow> real \<Rightarrow> real \<Rightarrow> real \<Rightarrow> real \<Rightarrow> real \<Rightarrow> nat \<Rightarrow> mco_option_type
     \<Rightarrow> bool \<Rightarrow> bool \<Rightarrow> mco_ctx option \<times> real" where
  "mco_price_american ctx spot strike rate volatility tm nsteps ty tables_ok regress_ok =
     (case ctx of
        None \<Rightarrow> (None, 0)
      | Some c \<Rightarrow>
          if spot \<le> 0 \<or> strike \<le> 0 \<or> volatility < 0 \<or> tm < 0
          then (Some (c\<lparr>last_error := MCO_ERR_INVALID_ARG\<rparr>), 0)
          else mco_lsm_american (Some c) spot strike rate volatility tm
                 (if nsteps = 0 then MCO_DEFAULT_AMERICAN_STEPS else nsteps) ty
                 tables_ok regress_ok)"

section \<open>Sobol sequence (sobol.h, sobol.c)\<close>

text \<open>
  The struct \<^verbatim>\<open>mco_sobol\<close>, its fields prefixed with \<open>sb_\<close>: the integer vector \<^verbatim>\<open>x\<close> is a
  list and the direction numbers \<^verbatim>\<open>v\<close> a list of rows.  An access outside a row or outside
  the vector is \<open>None\<close>.
\<close>

record mco_sobol =
  sb_dim :: u32
  sb_count :: u32
  sb_x :: "u32 list"
  sb_v :: "u32 list list"

definition MCO_SOBOL_MAX_DIM :: nat where "MCO_SOBOL_MAX_DIM = 1024"
definition MCO_SOBOL_BITS :: nat where "MCO_SOBOL_BITS = 32"

text \<open>
  The tables of \<^verbatim>\<open>sobol.c\<close>: the primitive polynomials as (degree, coefficients) pairs and
  the initial direction numbers, whose rows C pads with zeros to ten entries.
\<close>

definition sobol_poly :: "u32 list" where
  "sobol_poly =
    [1, 0, 2, 1, 3, 1, 3, 2, 4, 1, 4, 4, 5, 2, 5, 4, 5, 7, 5, 11, 5, 13, 5, 14, 6, 1,
      6, 13, 6, 16, 6, 19, 6, 22, 6, 25, 7, 1, 7, 4, 7, 7, 7, 8, 7, 14, 7, 19, 7, 21,
      7, 28, 7, 31, 7, 32, 7, 37, 7, 41, 7, 42, 7, 50, 7, 55, 7, 56, 7, 59, 7, 62, 8,
      14, 8, 21, 8, 22, 8, 38]"

definition sobol_m :: "u32 list list" where
  "sobol_m = map (\<lambda>row. row @ replicate (10 - length row) 0)
    [[1], [1, 1], [1, 3, 1], [1, 3, 3], [1, 1, 1, 1], [1, 1, 3, 3], [1, 3, 5, 13, 7],
      [1, 1, 5, 5, 21], [1, 3, 1, 15, 21], [1, 3, 7, 5, 27], [1, 1, 5, 11, 19],
      [1, 3, 5, 1, 1], [1, 1, 1, 3, 29, 15], [1, 1, 3, 7, 7, 49], [1, 1, 1, 9, 19, 21],
      [1, 1, 1, 13, 21, 55], [1, 1, 7, 5, 7, 11], [1, 1, 7, 7, 31, 17],
      [1, 3, 7, 13, 1, 5, 49], [1, 1, 5, 3, 17, 57, 97], [1, 1, 7, 1, 7, 33, 73],
      [1, 3, 3, 9, 23, 47, 97], [1, 3, 7, 5, 5, 27, 39], [1, 3, 1, 3, 21, 3, 7],
      [1, 1, 5, 11, 29, 17, 117], [1, 1, 3, 15, 15, 49, 125], [1, 3, 1, 11, 19, 7, 3],
      [1, 1, 7, 7, 25, 5, 85], [1, 1, 7, 13, 29, 51, 107], [1, 3, 5, 13, 31, 55, 89],
      [1, 1, 1, 5, 11, 51, 69], [1, 1, 3, 7, 17, 39, 127], [1, 1, 1, 9, 1, 33, 83],
      [1, 3, 5, 7, 19, 29, 73], [1, 3, 5, 5, 1, 37, 101], [1, 3, 3, 11, 29, 33, 93],
      [1, 3, 1, 3, 25, 29, 127, 151], [1, 1, 7, 11, 5, 5, 23, 69],
      [1, 3, 3, 1, 31, 51, 95, 243], [1, 3, 3, 15, 17, 41, 83, 247]]"

text \<open>
  The direction numbers of one dimension, as \<^verbatim>\<open>mco_sobol_init\<close> writes them into a row
  that \<^verbatim>\<open>memset\<close> has zeroed: the first dimension, a tabulated dimension (the entries from
  the table, then the recurrence), and the fallback beyond the table.
\<close>

definition sobol_row_first :: "u32 list" where
  "sobol_row_first = map (\<lambda>k. push_bit (MCO_SOBOL_BITS - 1 - k) 1) [0..<MCO_SOBOL_BITS]"

definition sobol_row_tab :: "nat \<Rightarrow> u32 list" where
  "sobol_row_tab d =
     (let deg = unat (sobol_poly ! (d * 2));
          poly = sobol_poly ! (d * 2 + 1);
          row0 = fold (\<lambda>k row. row[k := push_bit (MCO_SOBOL_BITS - 1 - k) (sobol_m ! d ! k)])
                   [0..<min deg 10] (replicate MCO_SOBOL_BITS 0)
      in fold (\<lambda>k row.
                 row[k := fold (\<lambda>j v_k. if poly AND push_bit (deg - 1 - j) 1 \<noteq> 0
                                          then v_k XOR row ! (k - j) else v_k)
                            [1..<deg]
                            (row ! (k - deg) XOR drop_bit deg (row ! (k - deg)))])
           [deg..<MCO_SOBOL_BITS] row0)"

definition sobol_row_fallback :: "nat \<Rightarrow> u32 list" where
  "sobol_row_fallback d =
     map (\<lambda>k. push_bit (MCO_SOBOL_BITS - 1 - k)
                 ((of_nat d * 2654435761) XOR (of_nat k * 1597334677))
              OR push_bit (MCO_SOBOL_BITS - 1 - k) 1)
       [0..<MCO_SOBOL_BITS]"

text \<open>
  \<^verbatim>\<open>mco_sobol_init\<close> on a non-null state; \<open>None\<close> is the return value \<open>-1\<close> for a dimension
  count of zero or above \<^verbatim>\<open>MCO_SOBOL_MAX_DIM\<close>.
\<close>

definition mco_sobol_init :: "u32 \<Rightarrow> mco_sobol option" where
  "mco_sobol_init dm =
     (if dm = 0 \<or> unat dm > MCO_SOBOL_MAX_DIM then None
      else Some \<lparr>sb_dim = dm, sb_count = 0,
                 sb_x = replicate MCO_SOBOL_MAX_DIM 0,
                 sb_v = map (\<lambda>d. if d < unat dm
                                    then (if d = 0 then sobol_row_first
                                          else if d < 40 then sobol_row_tab d
                                          else sobol_row_fallback d)
                                    else replicate MCO_SOBOL_BITS 0)
                          [0..<MCO_SOBOL_MAX_DIM]\<rparr>)"

function rightmost_zero :: "u32 \<Rightarrow> nat" where
  "rightmost_zero w = (if w AND 1 = 1 then Suc (rightmost_zero (drop_bit 1 w)) else 0)"
  by pat_completeness auto
termination
proof (relation "measure unat")
  show "wf (measure (unat :: u32 \<Rightarrow> nat))" by simp
next
  fix w :: u32
  assume "w AND 1 = 1"
  then have "w \<noteq> 0" by auto
  then have "unat w \<noteq> 0" by (simp add: unat_eq_0)
  then have "unat w div 2 < unat w" by simp
  then show "(drop_bit 1 w, w) \<in> measure unat"
    by (simp add: drop_bit_eq_div unat_div)
qed

declare rightmost_zero.simps [simp del]

text \<open>The loop over the dimensions in \<^verbatim>\<open>mco_sobol_next\<close>, which also writes the point.\<close>

fun sobol_next_dims ::
  "nat list \<Rightarrow> nat \<Rightarrow> u32 list list \<Rightarrow> u32 list \<Rightarrow> real list \<Rightarrow> (u32 list \<times> real list) option" where
  "sobol_next_dims [] c v xs point = Some (xs, point)"
| "sobol_next_dims (d # ds) c v xs point =
     (if d < length xs \<and> d < length v \<and> c < length (v ! d)
      then let xd = (xs ! d) XOR (v ! d ! c)
           in sobol_next_dims ds c v (xs[d := xd]) (point @ [real (unat xd) * (1 / 2 ^ 32)])
      else None)"

definition mco_sobol_next :: "mco_sobol \<Rightarrow> (mco_sobol \<times> real list) option" where
  "mco_sobol_next s =
     (let c = rightmost_zero (sb_count s)
      in case sobol_next_dims [0..<unat (sb_dim s)] c (sb_v s) (sb_x s) [] of
           None \<Rightarrow> None
         | Some (xs, point) \<Rightarrow> Some (s\<lparr>sb_x := xs, sb_count := sb_count s + 1\<rparr>, point))"

text \<open>The loop over the dimensions in \<^verbatim>\<open>mco_sobol_skip\<close>, and its outer loop.\<close>

fun sobol_skip_dims :: "nat list \<Rightarrow> nat \<Rightarrow> u32 list list \<Rightarrow> u32 list \<Rightarrow> u32 list option" where
  "sobol_skip_dims [] c v xs = Some xs"
| "sobol_skip_dims (d # ds) c v xs =
     (if d < length xs \<and> d < length v \<and> c < length (v ! d)
      then sobol_skip_dims ds c v (xs[d := (xs ! d) XOR (v ! d ! c)])
      else None)"

fun sobol_skip_loop :: "nat \<Rightarrow> mco_sobol \<Rightarrow> mco_sobol option" where
  "sobol_skip_loop 0 s = Some s"
| "sobol_skip_loop (Suc k) s =
     (let c = rightmost_zero (sb_count s)
      in case sobol_skip_dims [0..<unat (sb_dim s)] c (sb_v s) (sb_x s) of
           None \<Rightarrow> None
         | Some xs \<Rightarrow> sobol_skip_loop k (s\<lparr>sb_x := xs, sb_count := sb_count s + 1\<rparr>))"

definition mco_sobol_skip :: "mco_sobol \<Rightarrow> u64 \<Rightarrow> mco_sobol option" where
  "mco_sobol_skip s cnt = sobol_skip_loop (unat cnt) s"

fun sobol_reset_dims :: "nat list \<Rightarrow> u32 list \<Rightarrow> u32 list option" where
  "sobol_reset_dims [] xs = Some xs"
| "sobol_reset_dims (d # ds) xs =
     (if d < length xs then sobol_reset_dims ds (xs[d := 0]) else None)"

definition mco_sobol_reset :: "mco_sobol \<Rightarrow> mco_sobol option" where
  "mco_sobol_reset s =
     (case sobol_reset_dims [0..<unat (sb_dim s)] (sb_x s) of
        None \<Rightarrow> None
      | Some xs \<Rightarrow> Some (s\<lparr>sb_count := 0, sb_x := xs\<rparr>))"

text \<open>Calling \<^verbatim>\<open>mco_sobol_next\<close> a number of times on the same buffer, keeping the last point.\<close>

fun sobol_next_times :: "nat \<Rightarrow> mco_sobol \<Rightarrow> real list \<Rightarrow> (mco_sobol \<times> real list) option" where
  "sobol_next_times 0 s point = Some (s, point)"
| "sobol_next_times (Suc k) s point =
     (case mco_sobol_next s of
        None \<Rightarrow> None
      | Some (s1, point1) \<Rightarrow> sobol_next_times k s1 point1)"

text \<open>
  What \<^verbatim>\<open>mco_sobol_init\<close> establishes about the shape of a state: the dimension count is
  within the vector and the table, and every row used has \<^verbatim>\<open>MCO_SOBOL_BITS\<close> entries.
\<close>

definition sobol_shape :: "mco_sobol \<Rightarrow> bool" where
  "sobol_shape s =
     (unat (sb_dim s) \<le> length (sb_x s) \<and> unat (sb_dim s) \<le> length (sb_v s) \<and>
      list_all (\<lambda>row. length row = MCO_SOBOL_BITS) (take (unat (sb_dim s)) (sb_v s)))"

section \<open>Frame of a pricing call\<close>

text \<open>
  A pricing call leaves the context as it was, except possibly for the last-error slot:
  the pointer is still non-null and its target equals the old context with the new error.
\<close>

definition unchanged_but_error :: "mco_ctx \<Rightarrow> mco_ctx option \<Rightarrow> bool" where
  "unchanged_but_error c ctx1 =
     (case ctx1 of None \<Rightarrow> False | Some c1 \<Rightarrow> c1 = c\<lparr>last_error := last_error c1\<rparr>)"

section \<open>Seeding never yields the all-zero state\<close>

text \<open>
  C9. For every 64-bit seed, \<^verbatim>\<open>mco_rng_seed\<close> produces a four-word state that is not
  all-zero.
\<close>

theorem mco_rng_seed_nonzero:
  "mco_rng_seed sd \<noteq> \<lparr>s_0 = 0, s_1 = 0, s_2 = 0, s_3 = 0\<rparr>"
  by (auto simp: mco_rng_seed_def Let_def split: prod.splits)

section \<open>Reads through a null context\<close>

text \<open>
  C6, as the code has it.  With a null context the getters for simulations, steps, seed,
  threads and the antithetic flag return zero; the last-error query returns the
  invalid-argument code, which is 2 and not zero.
\<close>

theorem null_context_reads:
  "mco_get_simulations None = 0 \<and> mco_get_steps None = 0 \<and> mco_get_seed None = 0 \<and>
   mco_get_threads None = 0 \<and> mco_get_antithetic None = 0 \<and>
   mco_ctx_last_error None = MCO_ERR_INVALID_ARG \<and>
   error_code (mco_ctx_last_error None) = 2"
  by (simp add: mco_get_simulations_def mco_get_steps_def mco_get_seed_def
      mco_get_threads_def mco_get_antithetic_def mco_ctx_last_error_def)

text \<open>
  C6, as stated, fails at the last-error query: its value for a null context is not the
  zero code.
\<close>

theorem null_context_last_error_nonzero:
  "error_code (mco_ctx_last_error None) \<noteq> 0"
  by (simp add: mco_ctx_last_error_def)

section \<open>Control-variate estimate\<close>

subsection \<open>Rounding to binary64\<close>

text \<open>
  Rounding moves a number by at most half the spacing of the doubles around it, leaves a
  double where it is, and is defined below the overflow range.
\<close>

lemma round_even_of_int: "round_even (of_int k) = k"
  by (simp add: round_even_def)


lemma round_even_abs_le:
  assumes "\<bar>y\<bar> \<le> of_int m"
  shows "\<bar>round_even y\<bar> \<le> m"
proof -
  have lo: "- m \<le> \<lfloor>y\<rfloor>" using assms by (simp add: le_floor_iff abs_le_iff)
  have hi: "\<lfloor>y\<rfloor> \<le> m" using assms by (simp add: floor_le_iff abs_le_iff) 
  have top: "\<lfloor>y\<rfloor> = m \<Longrightarrow> y - of_int \<lfloor>y\<rfloor> < 1 / 2"
    using assms by (simp add: abs_le_iff)
  have "\<lfloor>y\<rfloor> \<le> round_even y" by (simp add: round_even_def Let_def)
  moreover have "round_even y \<le> m"
    using hi top by (cases "\<lfloor>y\<rfloor> = m") (auto simp add: round_even_def Let_def)
  ultimately show ?thesis using lo by linarith
qed

lemma log2_bounds:
  assumes "x \<noteq> 0"
  shows "2 powi \<lfloor>log 2 \<bar>x\<bar>\<rfloor> \<le> \<bar>x\<bar>" and "\<bar>x\<bar> < 2 powi (\<lfloor>log 2 \<bar>x\<bar>\<rfloor> + 1)"
proof -
  have p: "0 < \<bar>x\<bar>" using assms by simp
  have "(2::real) powr real_of_int \<lfloor>log 2 \<bar>x\<bar>\<rfloor> \<le> \<bar>x\<bar> \<and>
        \<bar>x\<bar> < 2 powr real_of_int (\<lfloor>log 2 \<bar>x\<bar>\<rfloor> + 1)"
    using floor_log_eq_powr_iff [OF p, of 2 "\<lfloor>log 2 \<bar>x\<bar>\<rfloor>"] by simp
  moreover have "(2::real) powr real_of_int k = 2 powi k" for k
    by (rule powr_real_of_int') simp_all
  ultimately show "2 powi \<lfloor>log 2 \<bar>x\<bar>\<rfloor> \<le> \<bar>x\<bar>" and "\<bar>x\<bar> < 2 powi (\<lfloor>log 2 \<bar>x\<bar>\<rfloor> + 1)"
    by (simp_all only:)
qed

lemma log2_unique:
  assumes "2 powi e \<le> \<bar>x\<bar>" and "\<bar>x\<bar> < 2 powi (e + 1)"
  shows "\<lfloor>log 2 \<bar>x\<bar>\<rfloor> = e"
proof -
  have "(0::real) < 2 powi e" by (simp add: zero_less_power_int)
  then have p: "0 < \<bar>x\<bar>" using assms(1) by linarith
  have pw: "(2::real) powr real_of_int k = 2 powi k" for k
    by (rule powr_real_of_int') simp_all
  have "(\<lfloor>log 2 \<bar>x\<bar>\<rfloor> = e) = (2 powi e \<le> \<bar>x\<bar> \<and> \<bar>x\<bar> < 2 powi (e + 1))"
    using floor_log_eq_powr_iff [OF p, of 2 e] by (simp only: pw)
  then show ?thesis using assms by simp
qed

lemma pow2_less_exp:
  assumes "(2::real) powi a < 2 powi b"
  shows "a < b"
proof (rule ccontr)
  assume "\<not> a < b"
  then have "b \<le> a" by simp
  then have "(2::real) powi b \<le> 2 powi a" by (intro power_int_increasing) simp_all
  then show False using assms by simp
qed



lemma b64_scaled_bound:
  assumes "x \<noteq> 0"
  shows "\<bar>x / 2 powi (b64_exponent x - 52)\<bar> < 2 ^ 53"
proof -
  let ?E = "b64_exponent x"
  have q: "(0::real) < 2 powi (?E - 52)" by (simp add: zero_less_power_int)
  have "\<bar>x\<bar> < 2 powi (\<lfloor>log 2 \<bar>x\<bar>\<rfloor> + 1)" by (rule log2_bounds(2) [OF assms])
  also have "\<dots> \<le> 2 powi (?E + 1)"
    by (intro power_int_increasing) (simp_all add: b64_exponent_def)
  also have "\<dots> = 2 powi (?E - 52) * 2 ^ 53"
  proof -
    have "?E + 1 = (?E - 52) + 53" by simp
    then have "(2::real) powi (?E + 1) = 2 powi ((?E - 52) + 53)" by (simp only:)
    also have "\<dots> = 2 powi (?E - 52) * 2 powi 53"
      by (subst power_int_add) simp_all
    finally show ?thesis by simp
  qed
  finally have "\<bar>x\<bar> / 2 powi (?E - 52) < 2 ^ 53"
    using q by (simp add: field_simps)
  then show ?thesis using q by (simp add: abs_divide)
qed


lemma b64_round_eval:
  assumes "2 powi e \<le> \<bar>x\<bar>" and "\<bar>x\<bar> < 2 powi (e + 1)" and "- 1022 \<le> e"
    and "real_of_int (round_even (x / 2 powi (e - 52))) * 2 powi (e - 52) = y"
    and "\<bar>y\<bar> < 2 ^ 1024"
  shows "b64_round x = Some y"
proof -
  have "(0::real) < 2 powi e" by (simp add: zero_less_power_int)
  then have "0 < \<bar>x\<bar>" using assms(1) by linarith
  then have nz: "x \<noteq> 0" by auto
  have "b64_exponent x = e"
    using log2_unique [OF assms(1,2)] assms(3) by (simp add: b64_exponent_def)
  then show ?thesis using nz assms(4,5) by (simp add: b64_round_def Let_def)
qed

lemma b64_round_rep:
  assumes "\<bar>k\<bar> < 2 ^ 53" and "- 1074 \<le> j" and "\<bar>real_of_int k * 2 powi j\<bar> < 2 ^ 1024"
  shows "b64_round (of_int k * 2 powi j) = Some (of_int k * 2 powi j)"
proof (cases "k = 0")
  case True
  then show ?thesis by (simp add: b64_round_def)
next
  case False
  define x where "x = real_of_int k * 2 powi j"
  define E where "E = b64_exponent x"
  have pj: "(0::real) < 2 powi j" by (simp add: zero_less_power_int)
  have nz: "x \<noteq> 0" using False pj by (simp add: x_def)
  have "\<bar>x\<bar> = \<bar>real_of_int k\<bar> * 2 powi j" using pj by (simp add: x_def abs_mult)
  also have "\<dots> < 2 ^ 53 * 2 powi j"
  proof -
    have "real_of_int \<bar>k\<bar> < real_of_int (2 ^ 53)" using assms(1) by (simp only: of_int_less_iff)
    then have "\<bar>real_of_int k\<bar> < 2 ^ 53" by simp
    then show ?thesis using pj by (intro mult_strict_right_mono)
  qed
  also have "\<dots> = 2 powi (j + 53)"
  proof -
    have "(2::real) powi (j + 53) = 2 powi j * 2 powi 53"
      by (subst power_int_add) simp_all
    then show ?thesis by simp
  qed
  finally have up: "\<bar>x\<bar> < 2 powi (j + 53)" .
  have "2 powi \<lfloor>log 2 \<bar>x\<bar>\<rfloor> \<le> \<bar>x\<bar>" by (rule log2_bounds(1) [OF nz])
  then have "(2::real) powi \<lfloor>log 2 \<bar>x\<bar>\<rfloor> < 2 powi (j + 53)" using up by linarith
  then have "\<lfloor>log 2 \<bar>x\<bar>\<rfloor> < j + 53" by (rule pow2_less_exp)
  then have E: "E \<le> j + 52" using assms(2) by (simp add: E_def b64_exponent_def)
  define d where "d = nat (j + 52 - E)"
  have jd: "j = (E - 52) + int d" using E by (simp add: d_def)
  have "(2::real) powi ((E - 52) + int d) = 2 powi (E - 52) * 2 powi (int d)"
    by (subst power_int_add) simp_all
  then have split: "(2::real) powi j = 2 powi (E - 52) * 2 ^ d"
    using jd by simp
  have q: "(0::real) < 2 powi (E - 52)" by (simp add: zero_less_power_int)
  have "x / 2 powi (E - 52) = real_of_int k * 2 ^ d"
    using q by (simp add: x_def split)
  also have "\<dots> = real_of_int (k * 2 ^ d)" by simp
  finally have sc: "x / 2 powi (E - 52) = real_of_int (k * 2 ^ d)" .
  have "real_of_int (round_even (x / 2 powi (E - 52))) * 2 powi (E - 52) = x"
    unfolding sc round_even_of_int by (simp add: x_def split)
  then have "b64_round x = Some x"
    using nz assms(3) by (simp add: b64_round_def Let_def E_def [symmetric]) (simp add: x_def)
  then show ?thesis by (simp add: x_def)
qed


lemma b64_round_lt: "b64_round x = Some y \<Longrightarrow> \<bar>y\<bar> < 2 ^ 1024"
  by (auto simp add: b64_round_def Let_def split: if_splits)


lemma b64_round_defined:
  assumes "\<bar>x\<bar> < 2 ^ 1023"
  shows "\<exists>y. b64_round x = Some y"
proof (cases "x = 0")
  case True
  then show ?thesis by (simp add: b64_round_def)
next
  case False
  define E where "E = b64_exponent x"
  define K where "K = round_even (x / 2 powi (E - 52))"
  have "2 powi \<lfloor>log 2 \<bar>x\<bar>\<rfloor> \<le> \<bar>x\<bar>" by (rule log2_bounds(1) [OF False])
  also have "\<bar>x\<bar> < 2 powi 1023" using assms by simp
  finally have "\<lfloor>log 2 \<bar>x\<bar>\<rfloor> < 1023" by (rule pow2_less_exp)
  then have E: "E \<le> 1022" by (simp add: E_def b64_exponent_def)
  have "\<bar>x / 2 powi (E - 52)\<bar> \<le> real_of_int (2 ^ 53)"
    using b64_scaled_bound [OF False] by (simp add: E_def)
  then have K: "\<bar>K\<bar> \<le> 2 ^ 53" unfolding K_def by (rule round_even_abs_le)
  have q: "(0::real) < 2 powi (E - 52)" by (simp add: zero_less_power_int)
  have "\<bar>real_of_int K * 2 powi (E - 52)\<bar> = real_of_int \<bar>K\<bar> * 2 powi (E - 52)"
    using q by (simp add: abs_mult)
  also have "\<dots> \<le> real_of_int (2 ^ 53) * 2 powi (E - 52)"
  proof -
    have "real_of_int \<bar>K\<bar> \<le> real_of_int (2 ^ 53)" using K by (simp only: of_int_le_iff)
    then show ?thesis using q by (intro mult_right_mono) simp_all
  qed
  also have "\<dots> \<le> real_of_int (2 ^ 53) * 2 powi 970"
    using E by (intro mult_left_mono power_int_increasing) simp_all
  also have "\<dots> < 2 ^ 1024" by simp
  finally have "\<bar>real_of_int K * 2 powi (E - 52)\<bar> < 2 ^ 1024" .
  then show ?thesis
    using False by (simp add: b64_round_def Let_def E_def [symmetric] K_def [symmetric])
qed






lemma z_million_nearest: "b64_round (10000001 / 10) = Some z_million"
  unfolding z_million_def
  by (rule b64_round_eval [where e = 19]) (simp_all add: round_even_def)

lemma b64_0_1_nearest: "b64_round (1 / 10) = Some b64_0_1"
  unfolding b64_0_1_def
  by (rule b64_round_eval [where e = "- 4"]) (simp_all add: round_even_def)

lemma b64_1e_12_nearest: "b64_round (1 / 10 ^ 12) = Some b64_1e_12"
  unfolding b64_1e_12_def
  by (rule b64_round_eval [where e = "- 40"]) (simp_all add: round_even_def)

subsection \<open>The accumulator and the estimate\<close>









subsection \<open>The estimate is defined on bounded samples\<close>

text \<open>
  Rounding never leaves the interval between a double and its negative.  So the sums of
  fewer than \<open>2\<^sup>5\<^sup>3\<close> pairs of magnitude at most \<open>2\<^sup>3\<^sup>0\<^sup>0\<close> stay finite, and so does every step
  of the estimate taken from them.
\<close>

lemma b64_exponent_mono:
  assumes "x \<noteq> 0" and "\<bar>x\<bar> \<le> \<bar>r\<bar>"
  shows "b64_exponent x \<le> b64_exponent r"
proof -
  have "0 < \<bar>x\<bar>" using assms(1) by simp
  then have "log 2 \<bar>x\<bar> \<le> log 2 \<bar>r\<bar>" using assms(2) by simp
  then have "\<lfloor>log 2 \<bar>x\<bar>\<rfloor> \<le> \<lfloor>log 2 \<bar>r\<bar>\<rfloor>" by (rule floor_mono)
  then show ?thesis by (simp add: b64_exponent_def)
qed

lemma b64_round_le:
  assumes R: "b64_round r = Some r" and le: "\<bar>x\<bar> \<le> \<bar>r\<bar>"
  shows "\<exists>y. b64_round x = Some y \<and> \<bar>y\<bar> \<le> \<bar>r\<bar>"
proof (cases "x = 0")
  case True
  then show ?thesis by (simp add: b64_round_def)
next
  case False
  then have rnz: "r \<noteq> 0" using le by auto
  define Ex where "Ex = b64_exponent x"
  define Er where "Er = b64_exponent r"
  define Kr where "Kr = round_even (r / 2 powi (Er - 52))"
  define K where "K = round_even (x / 2 powi (Ex - 52))"
  have E: "Ex \<le> Er" unfolding Ex_def Er_def using False le by (rule b64_exponent_mono)
  have r: "r = real_of_int Kr * 2 powi (Er - 52)"
    using R rnz by (simp add: b64_round_def Let_def Er_def Kr_def split: if_splits)
  define d where "d = nat (Er - Ex)"
  have ed: "Er - 52 = (Ex - 52) + int d" using E by (simp add: d_def)
  have "(2::real) powi ((Ex - 52) + int d) = 2 powi (Ex - 52) * 2 powi (int d)"
    by (subst power_int_add) simp_all
  then have "(2::real) powi (Er - 52) = 2 powi (Ex - 52) * 2 powi (int d)"
    by (simp only: ed)
  then have split: "(2::real) powi (Er - 52) = 2 powi (Ex - 52) * 2 ^ d" by simp
  have q: "(0::real) < 2 powi (Ex - 52)" by (simp add: zero_less_power_int)
  have "\<bar>r\<bar> = \<bar>real_of_int Kr * 2 ^ d\<bar> * 2 powi (Ex - 52)"
    using q by (subst r) (simp add: split abs_mult)
  also have "\<bar>real_of_int Kr * 2 ^ d\<bar> = real_of_int \<bar>Kr * 2 ^ d\<bar>" by simp
  finally have rq: "\<bar>r\<bar> = real_of_int \<bar>Kr * 2 ^ d\<bar> * 2 powi (Ex - 52)" .
  have "\<bar>x / 2 powi (Ex - 52)\<bar> = \<bar>x\<bar> / 2 powi (Ex - 52)" using q by (simp add: abs_divide)
  also have "\<dots> \<le> \<bar>r\<bar> / 2 powi (Ex - 52)" using le q by (intro divide_right_mono) simp_all
  also have "\<dots> = real_of_int \<bar>Kr * 2 ^ d\<bar>" using q by (simp add: rq)
  finally have "\<bar>K\<bar> \<le> \<bar>Kr * 2 ^ d\<bar>" unfolding K_def by (rule round_even_abs_le)
  then have "real_of_int \<bar>K\<bar> \<le> real_of_int \<bar>Kr * 2 ^ d\<bar>" by (simp only: of_int_le_iff)
  then have "real_of_int \<bar>K\<bar> * 2 powi (Ex - 52) \<le> real_of_int \<bar>Kr * 2 ^ d\<bar> * 2 powi (Ex - 52)"
    using q by (intro mult_right_mono) simp_all
  moreover have "\<bar>real_of_int K * 2 powi (Ex - 52)\<bar> = real_of_int \<bar>K\<bar> * 2 powi (Ex - 52)"
    using q by (simp add: abs_mult)
  ultimately have y: "\<bar>real_of_int K * 2 powi (Ex - 52)\<bar> \<le> \<bar>r\<bar>" using rq by simp
  have "\<bar>r\<bar> < 2 ^ 1024" using b64_round_lt [OF R] .
  then have "\<bar>real_of_int K * 2 powi (Ex - 52)\<bar> < 2 ^ 1024" using y by linarith
  then have "b64_round x = Some (real_of_int K * 2 powi (Ex - 52))"
    using False by (simp add: b64_round_def Let_def Ex_def [symmetric] K_def [symmetric])
  then show ?thesis using y by simp
qed

lemma b64_round_nat_pow2:
  assumes "m < 2 ^ 53" and "k \<le> 970"
  shows "b64_round (real m * 2 ^ k) = Some (real m * 2 ^ k)"
proof -
  have "real m * 2 ^ k < 2 ^ 53 * 2 ^ k"
  proof -
    have "real m < real (2 ^ 53)" using assms(1) by (simp only: of_nat_less_iff)
    then show ?thesis by simp
  qed
  also have "\<dots> \<le> 2 ^ 53 * (2::real) ^ 970"
    using assms(2) by (intro mult_left_mono power_increasing) simp_all
  also have "\<dots> < 2 ^ 1024" by simp
  finally have "\<bar>real_of_int (int m) * 2 powi (int k)\<bar> < 2 ^ 1024" by (simp add: abs_mult)
  moreover have "\<bar>int m\<bar> < 2 ^ 53" using assms(1) by simp
  ultimately have "b64_round (real_of_int (int m) * 2 powi (int k))
                     = Some (real_of_int (int m) * 2 powi (int k))"
    by (intro b64_round_rep) simp_all
  then show ?thesis by simp
qed

lemma b64_round_bounded:
  assumes "\<bar>x\<bar> \<le> real m * 2 ^ k" and "m < 2 ^ 53" and "k \<le> 970"
  shows "\<exists>y. b64_round x = Some y \<and> \<bar>y\<bar> \<le> real m * 2 ^ k"
  using b64_round_le [OF b64_round_nat_pow2 [OF assms(2,3)], of x] assms(1) by simp

lemma b64_pow2_bounded:
  assumes "\<bar>x\<bar> \<le> 2 ^ k" and "k \<le> 970"
  shows "\<exists>y. b64_round x = Some y \<and> \<bar>y\<bar> \<le> 2 ^ k"
  using b64_round_bounded [of x 1 k] assms by simp

lemma b64_add_bounded:
  assumes "\<bar>s\<bar> \<le> real j * 2 ^ k" and "\<bar>t\<bar> \<le> 2 ^ k" and "Suc j < 2 ^ 53" and "k \<le> 970"
  shows "\<exists>y. b64_add s t = Some y \<and> \<bar>y\<bar> \<le> real (Suc j) * 2 ^ k"
proof -
  have "\<bar>s + t\<bar> \<le> real j * 2 ^ k + 2 ^ k" using assms(1,2) by linarith
  also have "\<dots> = real (Suc j) * 2 ^ k" by (simp add: algebra_simps)
  finally show ?thesis
    unfolding b64_add_def using assms(3,4) by (intro b64_round_bounded)
qed

lemma b64_mul_bounded:
  assumes "\<bar>x\<bar> \<le> 2 ^ a" and "\<bar>z\<bar> \<le> 2 ^ b" and "a + b \<le> 970"
  shows "\<exists>y. b64_mul x z = Some y \<and> \<bar>y\<bar> \<le> 2 ^ (a + b)"
proof -
  have "\<bar>x * z\<bar> = \<bar>x\<bar> * \<bar>z\<bar>" by (rule abs_mult)
  also have "\<dots> \<le> 2 ^ a * 2 ^ b" using assms(1,2) by (intro mult_mono) simp_all
  finally have "\<bar>x * z\<bar> \<le> 2 ^ (a + b)" by (simp add: power_add)
  then show ?thesis unfolding b64_mul_def using assms(3) by (rule b64_pow2_bounded)
qed

lemma b64_sub_bounded:
  assumes "\<bar>x\<bar> \<le> 2 ^ k" and "\<bar>z\<bar> \<le> 2 ^ k" and "Suc k \<le> 970"
  shows "\<exists>y. b64_sub x z = Some y \<and> \<bar>y\<bar> \<le> 2 ^ Suc k"
proof -
  have "\<bar>x - z\<bar> \<le> 2 ^ Suc k" using assms(1,2) by simp
  then show ?thesis unfolding b64_sub_def using assms(3) by (rule b64_pow2_bounded)
qed

lemma b64_div_bounded:
  assumes "\<bar>x\<bar> \<le> 2 ^ k * \<bar>z\<bar>" and "z \<noteq> 0" and "k \<le> 970"
  shows "\<exists>y. b64_div x z = Some y \<and> \<bar>y\<bar> \<le> 2 ^ k"
proof -
  have "\<bar>x / z\<bar> = \<bar>x\<bar> / \<bar>z\<bar>" by (rule abs_divide)
  also have "\<dots> \<le> 2 ^ k" using assms(1,2) by (simp add: field_simps)
  finally have "\<exists>y. b64_round (x / z) = Some y \<and> \<bar>y\<bar> \<le> 2 ^ k"
    using assms(3) by (rule b64_pow2_bounded)
  then show ?thesis using assms(2) by (simp add: b64_div_def)
qed

lemma cv_add_within:
  assumes w: "cv_within j st" and x: "\<bar>x\<bar> \<le> 2 ^ 300" and z: "\<bar>z\<bar> \<le> 2 ^ 300"
    and j: "Suc j < 2 ^ 53"
  shows "\<exists>st1. mco_cv_add st x z = Some st1 \<and> cv_within (Suc j) st1 \<and>
               cv_n st1 = cv_n st + 1 \<and> ez st1 = ez st"
proof -
  from w have b: "\<bar>sum_x st\<bar> \<le> real j * 2 ^ 300" "\<bar>sum_z st\<bar> \<le> real j * 2 ^ 300"
    "\<bar>sum_xx st\<bar> \<le> real j * 2 ^ 600" "\<bar>sum_zz st\<bar> \<le> real j * 2 ^ 600"
    "\<bar>sum_xz st\<bar> \<le> real j * 2 ^ 600"
    by (simp_all add: cv_within_def)
  obtain sx where sx: "b64_add (sum_x st) x = Some sx" "\<bar>sx\<bar> \<le> real (Suc j) * 2 ^ 300"
    using b64_add_bounded [OF b(1) x j] by auto
  obtain sz where sz: "b64_add (sum_z st) z = Some sz" "\<bar>sz\<bar> \<le> real (Suc j) * 2 ^ 300"
    using b64_add_bounded [OF b(2) z j] by auto
  obtain xx where xx: "b64_mul x x = Some xx" "\<bar>xx\<bar> \<le> 2 ^ 600"
    using b64_mul_bounded [OF x x] by auto
  obtain zz where zz: "b64_mul z z = Some zz" "\<bar>zz\<bar> \<le> 2 ^ 600"
    using b64_mul_bounded [OF z z] by auto
  obtain xz where xz: "b64_mul x z = Some xz" "\<bar>xz\<bar> \<le> 2 ^ 600"
    using b64_mul_bounded [OF x z] by auto
  obtain sxx where sxx: "b64_add (sum_xx st) xx = Some sxx" "\<bar>sxx\<bar> \<le> real (Suc j) * 2 ^ 600"
    using b64_add_bounded [OF b(3) xx(2) j] by auto
  obtain szz where szz: "b64_add (sum_zz st) zz = Some szz" "\<bar>szz\<bar> \<le> real (Suc j) * 2 ^ 600"
    using b64_add_bounded [OF b(4) zz(2) j] by auto
  obtain sxz where sxz: "b64_add (sum_xz st) xz = Some sxz" "\<bar>sxz\<bar> \<le> real (Suc j) * 2 ^ 600"
    using b64_add_bounded [OF b(5) xz(2) j] by auto
  have "mco_cv_add st x z =
          Some (st\<lparr>sum_x := sx, sum_z := sz, sum_xx := sxx, sum_zz := szz, sum_xz := sxz,
                    cv_n := cv_n st + 1\<rparr>)"
    by (simp add: mco_cv_add_def sx(1) sz(1) xx(1) zz(1) xz(1) sxx(1) szz(1) sxz(1))
  moreover have "cv_within (Suc j)
          (st\<lparr>sum_x := sx, sum_z := sz, sum_xx := sxx, sum_zz := szz, sum_xz := sxz,
                    cv_n := cv_n st + 1\<rparr>)"
    using sx(2) sz(2) sxx(2) szz(2) sxz(2) by (simp add: cv_within_def)
  ultimately show ?thesis by simp
qed

lemma cv_add_all_within:
  assumes "cv_within j st" and "\<forall>p \<in> set ps. \<bar>fst p\<bar> \<le> 2 ^ 300 \<and> \<bar>snd p\<bar> \<le> 2 ^ 300"
    and "j + length ps < 2 ^ 53"
  shows "\<exists>st1. cv_add_all st ps = Some st1 \<and> cv_within (j + length ps) st1 \<and>
               cv_n st1 = cv_n st + of_nat (length ps) \<and> ez st1 = ez st"
  using assms
proof (induction ps arbitrary: j st)
  case Nil
  then show ?case by simp
next
  case (Cons p ps)
  have x: "\<bar>fst p\<bar> \<le> 2 ^ 300" and z: "\<bar>snd p\<bar> \<le> 2 ^ 300" using Cons.prems(2) by simp_all
  have j: "Suc j < 2 ^ 53" using Cons.prems(3) by simp
  obtain st2 where a: "mco_cv_add st (fst p) (snd p) = Some st2" "cv_within (Suc j) st2"
    "cv_n st2 = cv_n st + 1" "ez st2 = ez st"
    using cv_add_within [OF Cons.prems(1) x z j] by auto
  have rest: "\<forall>p \<in> set ps. \<bar>fst p\<bar> \<le> 2 ^ 300 \<and> \<bar>snd p\<bar> \<le> 2 ^ 300"
    using Cons.prems(2) by simp
  have len: "Suc j + length ps < 2 ^ 53" using Cons.prems(3) by simp
  obtain st1 where r: "cv_add_all st2 ps = Some st1" "cv_within (Suc j + length ps) st1"
    "cv_n st1 = cv_n st2 + of_nat (length ps)" "ez st1 = ez st2"
    using Cons.IH [OF a(2) rest len] by auto
  show ?case using a r by simp
qed

lemma cv_estimate_within:
  assumes w: "cv_within n st" and cn: "cv_n st = of_nat n" and n: "n < 2 ^ 53"
    and e: "\<bar>ez st\<bar> \<le> 2 ^ 300"
  shows "\<exists>r. mco_cv_estimate st = Some r"
proof (cases "n = 0")
  case True
  then show ?thesis using cn by (simp add: mco_cv_estimate_def)
next
  case False
  have "n < 2 ^ 64" using n by (rule less_trans) simp
  then have u: "unat (cv_n st) = n" using cn by (simp add: unat_of_nat)
  then have c0: "cv_n st \<noteq> 0" using False by auto
  have nn: "b64_of_u64 (cv_n st) = Some (real n)"
    using b64_round_nat_pow2 [of n 0] n by (simp add: b64_of_u64_def u)
  have np: "(0::real) < real n" "real n \<noteq> 0" "\<bar>real n\<bar> = real n" using False by simp_all
  from w have b: "\<bar>sum_x st\<bar> \<le> 2 ^ 300 * \<bar>real n\<bar>" "\<bar>sum_z st\<bar> \<le> 2 ^ 300 * \<bar>real n\<bar>"
    "\<bar>sum_zz st\<bar> \<le> 2 ^ 600 * \<bar>real n\<bar>" "\<bar>sum_xz st\<bar> \<le> 2 ^ 600 * \<bar>real n\<bar>"
    by (simp_all add: cv_within_def mult.commute)
  obtain mx where mx: "b64_div (sum_x st) (real n) = Some mx" "\<bar>mx\<bar> \<le> 2 ^ 300"
    using b64_div_bounded [OF b(1) np(2)] by auto
  obtain mz where mz: "b64_div (sum_z st) (real n) = Some mz" "\<bar>mz\<bar> \<le> 2 ^ 300"
    using b64_div_bounded [OF b(2) np(2)] by auto
  obtain ezz where ezz: "b64_div (sum_zz st) (real n) = Some ezz" "\<bar>ezz\<bar> \<le> 2 ^ 600"
    using b64_div_bounded [OF b(3) np(2)] by auto
  obtain mzz where mzz: "b64_mul mz mz = Some mzz" "\<bar>mzz\<bar> \<le> 2 ^ 600"
    using b64_mul_bounded [OF mz(2) mz(2)] by auto
  obtain v where v: "b64_sub ezz mzz = Some v" "\<bar>v\<bar> \<le> 2 ^ 601"
    using b64_sub_bounded [OF ezz(2) mzz(2)] by auto
  show ?thesis
  proof (cases "v < b64_1e_12")
    case True
    then show ?thesis
      by (simp add: mco_cv_estimate_def c0 nn mx(1) mz(1) ezz(1) mzz(1) v(1))
  next
    case False
    obtain exz where exz: "b64_div (sum_xz st) (real n) = Some exz" "\<bar>exz\<bar> \<le> 2 ^ 600"
      using b64_div_bounded [OF b(4) np(2)] by auto
    obtain mxz where mxz: "b64_mul mx mz = Some mxz" "\<bar>mxz\<bar> \<le> 2 ^ 600"
      using b64_mul_bounded [OF mx(2) mz(2)] by auto
    obtain cov where cov: "b64_sub exz mxz = Some cov" "\<bar>cov\<bar> \<le> 2 ^ 601"
      using b64_sub_bounded [OF exz(2) mxz(2)] by auto
    have "(1::real) / 2 ^ 40 \<le> b64_1e_12" by (simp add: b64_1e_12_def)
    then have vl: "1 / 2 ^ 40 \<le> v" using False by linarith
    then have vnz: "v \<noteq> 0" and vabs: "\<bar>v\<bar> = v" by auto
    have "\<bar>cov\<bar> \<le> 2 ^ 601 * (2 ^ 40 * v)"
    proof -
      have "(1::real) \<le> 2 ^ 40 * v" using vl by (simp add: field_simps)
      then have "(2::real) ^ 601 * 1 \<le> 2 ^ 601 * (2 ^ 40 * v)"
        by (intro mult_left_mono) simp_all
      then show ?thesis using cov(2) by linarith
    qed
    then have cb: "\<bar>cov\<bar> \<le> 2 ^ 641 * \<bar>v\<bar>" by (simp add: vabs)
    obtain c where c: "b64_div cov v = Some c" "\<bar>c\<bar> \<le> 2 ^ 641"
      using b64_div_bounded [OF cb vnz] by auto
    obtain d where d: "b64_sub mz (ez st) = Some d" "\<bar>d\<bar> \<le> 2 ^ 301"
      using b64_sub_bounded [OF mz(2) e] by auto
    obtain cd where cd: "b64_mul c d = Some cd" "\<bar>cd\<bar> \<le> 2 ^ 942"
      using b64_mul_bounded [OF c(2) d(2)] by auto
    have "\<bar>mx\<bar> \<le> 2 ^ 942"
    proof -
      have "(2::real) ^ 300 \<le> 2 ^ 942" by (intro power_increasing) simp_all
      then show ?thesis using mx(2) by linarith
    qed
    then obtain r where r: "b64_sub mx cd = Some r"
      using b64_sub_bounded [OF _ cd(2)] by auto
    show ?thesis
      using False
      by (simp add: mco_cv_estimate_def c0 nn mx(1) mz(1) ezz(1) mzz(1) v(1) exz(1) mxz(1)
            cov(1) c(1) d(1) cd(1) r)
  qed
qed

lemma cv_estimate_of_defined:
  assumes "\<forall>p \<in> set ps. \<bar>fst p\<bar> \<le> 2 ^ 300 \<and> \<bar>snd p\<bar> \<le> 2 ^ 300"
    and "length ps < 2 ^ 53" and "\<bar>e\<bar> \<le> 2 ^ 300"
  shows "\<exists>st r. cv_accumulate e ps = Some st \<and> mco_cv_estimate st = Some r"
proof -
  have w0: "cv_within 0 (mco_cv_init e)" by (simp add: cv_within_def mco_cv_init_def)
  obtain st where st: "cv_add_all (mco_cv_init e) ps = Some st" "cv_within (0 + length ps) st"
    "cv_n st = cv_n (mco_cv_init e) + of_nat (length ps)" "ez st = ez (mco_cv_init e)"
    using cv_add_all_within [OF w0 assms(1)] assms(2) by auto
  have "\<exists>r. mco_cv_estimate st = Some r"
  proof (rule cv_estimate_within)
    show "cv_within (length ps) st" using st(2) by simp
    show "cv_n st = of_nat (length ps)" using st(3) by (simp add: mco_cv_init_def)
    show "length ps < 2 ^ 53" by (rule assms(2))
    show "\<bar>ez st\<bar> \<le> 2 ^ 300" using st(4) assms(3) by (simp add: mco_cv_init_def)
  qed
  then show ?thesis using st(1) by (simp add: cv_accumulate_def)
qed

subsection \<open>Runs of the accumulator on given samples\<close>











section \<open>Antithetic European estimator\<close>

lemma normal_state_Suc: "normal_state g (Suc i) = normal_state (snd (mco_rng_normal g)) i"
  unfolding normal_state_def by (simp only: funpow_Suc_right o_apply)

lemma normal_draw_Suc: "normal_draw g (Suc i) = normal_draw (snd (mco_rng_normal g)) i"
  by (simp add: normal_draw_def normal_state_Suc)

lemma normal_draw_0: "normal_draw g 0 = fst (mco_rng_normal g)"
  by (simp add: normal_draw_def normal_state_def)

lemma antithetic_sum_loop_eq:
  "antithetic_sum_loop k m strike ty g acc =
     (acc + (\<Sum>i<k. pair_payoff m strike ty (normal_draw g i)), normal_state g k)"
proof (induction k arbitrary: g acc)
  case 0
  show ?case by (simp add: normal_state_def)
next
  case (Suc k)
  obtain z g1 where zg: "mco_rng_normal g = (z, g1)" by (cases "mco_rng_normal g")
  have d: "\<And>i. normal_draw g (Suc i) = normal_draw g1 i"
    by (simp add: normal_draw_Suc zg)
  have "antithetic_sum_loop (Suc k) m strike ty g acc =
          antithetic_sum_loop k m strike ty g1 (acc + pair_payoff m strike ty z)"
    by (simp add: zg Let_def pair_payoff_def add.assoc)
  also have "\<dots> = (acc + pair_payoff m strike ty z
                       + (\<Sum>i<k. pair_payoff m strike ty (normal_draw g1 i)), normal_state g1 k)"
    by (rule Suc.IH)
  also have "\<dots> = (acc + (\<Sum>i<Suc k. pair_payoff m strike ty (normal_draw g i)),
                    normal_state g (Suc k))"
    by (simp only: sum.lessThan_Suc_shift d normal_draw_0 zg normal_state_Suc fst_conv snd_conv
        add.assoc)
  finally show ?case .
qed

lemma unat_half: "unat ((w :: u64) div 2) = unat w div 2"
  by (simp add: unat_div)

text \<open>
  C4. The antithetic estimator forms \<open>max (n div 2) 1\<close> pairs, draws one normal per pair
  (the generator returned is the one after that many normal draws), adds the payoffs at
  \<open>+Z\<close> and \<open>-Z\<close>, and returns the discount factor times the sum divided by twice the number
  of pairs.
\<close>

theorem antithetic_european_mean:
  "mco_antithetic_european m g strike ty num_sims =
     (gbm_discount m *
        ((\<Sum>i < antithetic_pairs num_sims.
             mco_payoff (mco_gbm_terminal m (normal_draw g i)) strike ty
           + mco_payoff (mco_gbm_terminal m (- normal_draw g i)) strike ty)
         / real (2 * antithetic_pairs num_sims)),
      normal_state g (antithetic_pairs num_sims))"
proof -
  define np :: u64 where "np = (if num_sims div 2 = 0 then 1 else num_sims div 2)"
  have half: "unat (num_sims div 2) = unat num_sims div 2" by (rule unat_half)
  have "unat num_sims < 2 ^ 64" using unsigned_less [of num_sims, where ?'a = nat] by simp
  then have hb: "unat num_sims div 2 < 2 ^ 63" by simp
  have np_pairs: "unat np = antithetic_pairs num_sims"
  proof (cases "num_sims div 2 = 0")
    case True
    then have "unat num_sims div 2 = 0" using half by simp
    then show ?thesis using True by (simp add: np_def antithetic_pairs_def)
  next
    case False
    then have "unat (num_sims div 2) \<noteq> 0" by (simp add: unat_eq_0)
    then show ?thesis using False half by (simp add: np_def antithetic_pairs_def max_def)
  qed
  have "antithetic_pairs num_sims < 2 ^ 63"
    using hb by (simp add: antithetic_pairs_def max_def)
  then have dbl: "unat (2 * np) = 2 * antithetic_pairs num_sims"
    using np_pairs by (simp add: unat_word_ariths)
  show ?thesis
    unfolding mco_antithetic_european_def mco_antithetic_european_sum_def Let_def
      np_def [symmetric] antithetic_sum_loop_eq np_pairs
    by (simp add: dbl pair_payoff_def)
qed

text \<open>
  The antithetic worker of the thread pool does the same on its own unit: it stores the sum
  over its pairs and sets the end of its range to the number of paths it simulated.
\<close>

lemma num_pairs_unat:
  "unat (if (cnt :: u64) div 2 = 0 then 1 else cnt div 2) = antithetic_pairs cnt"
proof (cases "cnt div 2 = 0")
  case True
  then have "unat (cnt div 2) = 0" by simp
  then have "unat cnt div 2 = 0" by (simp add: unat_div)
  then show ?thesis using True by (simp add: antithetic_pairs_def)
next
  case False
  then have "unat (cnt div 2) \<noteq> 0" by (simp add: unat_eq_0)
  then have "unat cnt div 2 \<noteq> 0" by (simp add: unat_div)
  then show ?thesis using False by (simp add: antithetic_pairs_def max_def unat_div)
qed

lemma worker_antithetic_partial_sum:
  "worker_european_antithetic w =
     w\<lparr>w_rng := normal_state (w_rng w) (antithetic_pairs (end_sim w - start_sim w)),
       partial_sum :=
         (\<Sum>i < antithetic_pairs (end_sim w - start_sim w).
             pair_payoff (mco_gbm_init (w_spot w) (w_rate w) (w_volatility w) (w_time_to_maturity w))
               (w_strike w) (w_option_type w) (normal_draw (w_rng w) i)),
       end_sim := start_sim w + 2 * of_nat (antithetic_pairs (end_sim w - start_sim w))\<rparr>"
proof -
  define cnt where "cnt = end_sim w - start_sim w"
  define np :: u64 where "np = (if cnt div 2 = 0 then 1 else cnt div 2)"
  have u: "unat np = antithetic_pairs cnt" unfolding np_def by (rule num_pairs_unat)
  have w: "np = of_nat (antithetic_pairs cnt)" unfolding u [symmetric] by simp
  show ?thesis
    unfolding worker_european_antithetic_def Let_def cnt_def [symmetric] np_def [symmetric]
      mco_antithetic_european_sum_def
    by (simp add: antithetic_sum_loop_eq u w [symmetric])
qed

section \<open>Lookback payoffs\<close>

text \<open>
  A simulated path has one vertex more than it has steps.  On a path whose vertices are
  numbers the floating-strike payoffs are not negative, since the running minimum and
  maximum range over every vertex, the last one included.
\<close>

lemma gbm_path_loop_length: "length (fst (gbm_path_loop k m cur g)) = k"
proof (induction k arbitrary: cur g)
  case 0
  show ?case by simp
next
  case (Suc k)
  obtain z g1 where zg: "mco_rng_normal g = (z, g1)" by (cases "mco_rng_normal g")
  obtain rest g2 where r: "gbm_path_loop k m (mco_gbm_step m cur z) g1 = (rest, g2)"
    by (cases "gbm_path_loop k m (mco_gbm_step m cur z) g1")
  have "length rest = k" using Suc.IH [of "mco_gbm_step m cur z" g1] r by simp
  then show ?case by (simp add: zg r)
qed

lemma simulate_path_length:
  "length (fst (mco_gbm_simulate_path m g)) = Suc (gp_num_steps m)"
proof -
  obtain rest g1 where r: "gbm_path_loop (gp_num_steps m) m (gp_spot m) g = (rest, g1)"
    by (cases "gbm_path_loop (gp_num_steps m) m (gp_spot m) g")
  have "length rest = gp_num_steps m"
    using gbm_path_loop_length [of "gp_num_steps m" m "gp_spot m" g] r by simp
  then show ?thesis by (simp add: mco_gbm_simulate_path_def r)
qed

lemma minmax_loop_bounds:
  "fst (minmax_loop ps mn mx) \<le> mn \<and> mx \<le> snd (minmax_loop ps mn mx) \<and>
   (\<forall>p \<in> set ps. fst (minmax_loop ps mn mx) \<le> p \<and> p \<le> snd (minmax_loop ps mn mx))"
proof (induction ps arbitrary: mn mx)
  case Nil
  show ?case by simp
next
  case (Cons p ps)
  let ?mn = "if p < mn then p else mn" and ?mx = "if p > mx then p else mx"
  have ih: "fst (minmax_loop ps ?mn ?mx) \<le> ?mn \<and> ?mx \<le> snd (minmax_loop ps ?mn ?mx) \<and>
     (\<forall>q \<in> set ps. fst (minmax_loop ps ?mn ?mx) \<le> q \<and> q \<le> snd (minmax_loop ps ?mn ?mx))"
    by (rule Cons.IH)
  have a: "?mn \<le> mn" "?mn \<le> p" "mx \<le> ?mx" "p \<le> ?mx" by auto
  have s: "minmax_loop (p # ps) mn mx = minmax_loop ps ?mn ?mx" by simp
  show ?case unfolding s using ih a by (auto intro: order_trans)
qed

lemma lookback_floating_nonneg:
  assumes "length path = Suc nsteps"
  shows "0 \<le> lookback_path_payoff path nsteps strike MCO_LOOKBACK_FLOATING oty"
proof -
  obtain lo hi where mm: "minmax_loop (take nsteps (tl path)) (path ! 0) (path ! 0) = (lo, hi)"
    by (cases "minmax_loop (take nsteps (tl path)) (path ! 0) (path ! 0)")
  have b: "lo \<le> path ! 0 \<and> path ! 0 \<le> hi \<and>
           (\<forall>p \<in> set (take nsteps (tl path)). lo \<le> p \<and> p \<le> hi)"
    using minmax_loop_bounds [of "take nsteps (tl path)" "path ! 0" "path ! 0"] mm by simp
  have t: "lo \<le> path ! nsteps \<and> path ! nsteps \<le> hi"
  proof (cases nsteps)
    case 0
    then show ?thesis using b by simp
  next
    case (Suc k)
    have "take nsteps (tl path) = tl path" using assms by simp
    moreover have "path ! nsteps = tl path ! k"
      using assms Suc by (simp add: nth_tl)
    moreover have "k < length (tl path)" using assms Suc by simp
    ultimately have "path ! nsteps \<in> set (take nsteps (tl path))"
      by (metis nth_mem)
    then show ?thesis using b by blast
  qed
  show ?thesis
    using t by (simp add: lookback_path_payoff_def mm Let_def)
qed


section \<open>Sobol: skipping and stepping\<close>

lemma sobol_next_dims_skip:
  "map_option fst (sobol_next_dims ds c v xs point) = sobol_skip_dims ds c v xs"
proof (induction ds arbitrary: xs point)
  case Nil
  show ?case by simp
next
  case (Cons d ds)
  show ?case
  proof (cases "d < length xs \<and> d < length v \<and> c < length (v ! d)")
    case True
    then show ?thesis
      by (simp only: sobol_next_dims.simps sobol_skip_dims.simps Let_def simp_thms if_True Cons.IH)
  next
    case False
    then show ?thesis
      by (simp only: sobol_next_dims.simps sobol_skip_dims.simps if_False option.map)
  qed
qed

lemma sobol_next_cases:
  "mco_sobol_next s =
     (case sobol_skip_dims [0..<unat (sb_dim s)] (rightmost_zero (sb_count s)) (sb_v s) (sb_x s) of
        None \<Rightarrow> None
      | Some xs \<Rightarrow> Some (s\<lparr>sb_x := xs, sb_count := sb_count s + 1\<rparr>,
                     snd (the (sobol_next_dims [0..<unat (sb_dim s)] (rightmost_zero (sb_count s))
                                 (sb_v s) (sb_x s) []))))"
proof -
  define n where
    "n = sobol_next_dims [0..<unat (sb_dim s)] (rightmost_zero (sb_count s)) (sb_v s) (sb_x s) []"
  define k where
    "k = sobol_skip_dims [0..<unat (sb_dim s)] (rightmost_zero (sb_count s)) (sb_v s) (sb_x s)"
  have mk: "map_option fst n = k"
    unfolding n_def k_def by (rule sobol_next_dims_skip)
  have nx: "mco_sobol_next s =
          (case n of None \<Rightarrow> None
           | Some (xs, point) \<Rightarrow> Some (s\<lparr>sb_x := xs, sb_count := sb_count s + 1\<rparr>, point))"
    unfolding mco_sobol_next_def Let_def n_def ..
  have "(case n of None \<Rightarrow> None
           | Some (xs, point) \<Rightarrow> Some (s\<lparr>sb_x := xs, sb_count := sb_count s + 1\<rparr>, point))
        = (case k of None \<Rightarrow> None
           | Some xs \<Rightarrow> Some (s\<lparr>sb_x := xs, sb_count := sb_count s + 1\<rparr>, snd (the n)))"
    using mk by (cases n) auto
  then show ?thesis unfolding nx unfolding n_def k_def .
qed

lemma sobol_skip_then_next_loop:
  "Option.bind (sobol_skip_loop k s) mco_sobol_next = sobol_next_times (Suc k) s point"
proof (induction k arbitrary: s point)
  case 0
  show ?case by (cases "mco_sobol_next s") auto
next
  case (Suc k)
  show ?case
  proof (cases "sobol_skip_dims [0..<unat (sb_dim s)] (rightmost_zero (sb_count s)) (sb_v s) (sb_x s)")
    case None
    then have "mco_sobol_next s = None" by (simp add: sobol_next_cases)
    then show ?thesis using None by (simp add: Let_def)
  next
    case (Some xs)
    let ?s1 = "s\<lparr>sb_x := xs, sb_count := sb_count s + 1\<rparr>"
    obtain p1 where n: "mco_sobol_next s = Some (?s1, p1)"
      using Some by (simp add: sobol_next_cases)
    have "Option.bind (sobol_skip_loop (Suc k) s) mco_sobol_next
            = Option.bind (sobol_skip_loop k ?s1) mco_sobol_next"
      using Some by (simp add: Let_def)
    also have "\<dots> = sobol_next_times (Suc k) ?s1 p1" by (rule Suc.IH)
    also have "\<dots> = sobol_next_times (Suc (Suc k)) s point"
      using n by simp
    finally show ?thesis .
  qed
qed

lemma rightmost_zero_odd: "w AND 1 = 1 \<Longrightarrow> rightmost_zero w = Suc (rightmost_zero (drop_bit 1 w))"
  by (subst rightmost_zero.simps) simp

lemma rightmost_zero_even: "w AND 1 \<noteq> 1 \<Longrightarrow> rightmost_zero w = 0"
  by (subst rightmost_zero.simps) simp

lemma and_one_odd: "((w :: u32) AND 1 = 1) = odd (unat w)"
proof -
  have "(w AND 1 = 1) = odd w" by (simp add: and_one_eq mod_2_eq_odd)
  also have "\<dots> = odd (unat w)"
  proof -
    have "bit (unat w) 0 = bit w 0" by (simp add: bit_unsigned_iff)
    then show ?thesis by (simp only: bit_0)
  qed
  finally show ?thesis .
qed

lemma rightmost_zero_less:
  "unat w < 2 ^ m - 1 \<Longrightarrow> rightmost_zero w < m"
proof (induction m arbitrary: w)
  case 0
  then show ?case by simp
next
  case (Suc m)
  show ?case
  proof (cases "w AND 1 = 1")
    case False
    then show ?thesis by (simp add: rightmost_zero_even)
  next
    case True
    then have o: "odd (unat w)" by (simp add: and_one_odd)
    have "unat (drop_bit 1 w) = unat w div 2" by (simp add: drop_bit_eq_div unat_div)
    moreover have "unat w div 2 < 2 ^ m - 1" using Suc.prems o by (auto elim!: oddE)
    ultimately have "rightmost_zero (drop_bit 1 w) < m" using Suc.IH by simp
    then show ?thesis using True by (simp add: rightmost_zero_odd)
  qed
qed

lemma sobol_skip_dims_Some:
  assumes "\<forall>d \<in> set ds. d < length xs \<and> d < length v \<and> c < length (v ! d)"
  shows "\<exists>ys. sobol_skip_dims ds c v xs = Some ys \<and> length ys = length xs"
  using assms
proof (induction ds arbitrary: xs)
  case Nil
  show ?case by simp
next
  case (Cons d ds)
  let ?xs = "xs[d := xs ! d XOR v ! d ! c]"
  have "\<forall>e \<in> set ds. e < length ?xs \<and> e < length v \<and> c < length (v ! e)"
    using Cons.prems by simp
  then obtain ys where "sobol_skip_dims ds c v ?xs = Some ys" "length ys = length ?xs"
    using Cons.IH by blast
  then show ?case using Cons.prems by simp
qed

lemma sobol_reset_dims_Some:
  assumes "\<forall>d \<in> set ds. d < length xs"
  shows "\<exists>ys. sobol_reset_dims ds xs = Some ys \<and> length ys = length xs"
  using assms
proof (induction ds arbitrary: xs)
  case Nil
  show ?case by simp
next
  case (Cons d ds)
  have "\<forall>e \<in> set ds. e < length (xs[d := 0])" using Cons.prems by simp
  then obtain ys where "sobol_reset_dims ds (xs[d := 0]) = Some ys" "length ys = length (xs[d := 0])"
    using Cons.IH by blast
  then show ?case using Cons.prems by simp
qed

lemma sobol_shape_row:
  assumes "sobol_shape s" and "d < unat (sb_dim s)"
  shows "d < length (sb_x s)" and "d < length (sb_v s)" and "length (sb_v s ! d) = 32"
proof -
  show "d < length (sb_x s)" and dv: "d < length (sb_v s)"
    using assms by (simp_all add: sobol_shape_def)
  have "list_all (\<lambda>row. length row = 32) (take (unat (sb_dim s)) (sb_v s))"
    using assms(1) by (simp add: sobol_shape_def MCO_SOBOL_BITS_def)
  moreover have "d < length (take (unat (sb_dim s)) (sb_v s))" using assms(2) dv by simp
  ultimately have "length (take (unat (sb_dim s)) (sb_v s) ! d) = 32"
    by (simp add: list_all_length)
  then show "length (sb_v s ! d) = 32" using assms(2) by simp
qed

lemma sobol_reset_Some:
  assumes "sobol_shape s"
  shows "\<exists>s0. mco_sobol_reset s = Some s0 \<and> sobol_shape s0 \<and> sb_count s0 = 0"
proof -
  have "\<forall>d \<in> set [0..<unat (sb_dim s)]. d < length (sb_x s)"
    using sobol_shape_row(1) [OF assms] by simp
  then obtain ys where ys: "sobol_reset_dims [0..<unat (sb_dim s)] (sb_x s) = Some ys"
      "length ys = length (sb_x s)"
    using sobol_reset_dims_Some by blast
  have "sobol_shape (s\<lparr>sb_count := 0, sb_x := ys\<rparr>)"
    using assms ys(2) by (simp add: sobol_shape_def)
  then show ?thesis by (simp add: mco_sobol_reset_def ys(1))
qed

lemma sobol_next_Some:
  assumes "sobol_shape s" and "unat (sb_count s) < 2 ^ 32 - 1"
  shows "\<exists>s1 p1. mco_sobol_next s = Some (s1, p1) \<and> sobol_shape s1 \<and>
           unat (sb_count s1) = Suc (unat (sb_count s))"
proof -
  have c: "rightmost_zero (sb_count s) < 32" using assms(2) by (rule rightmost_zero_less)
  have "\<forall>d \<in> set [0..<unat (sb_dim s)]. d < length (sb_x s) \<and> d < length (sb_v s) \<and>
          rightmost_zero (sb_count s) < length (sb_v s ! d)"
    using sobol_shape_row [OF assms(1)] c by simp
  then obtain ys where ys:
      "sobol_skip_dims [0..<unat (sb_dim s)] (rightmost_zero (sb_count s)) (sb_v s) (sb_x s) = Some ys"
      "length ys = length (sb_x s)"
    using sobol_skip_dims_Some by blast
  have sh: "sobol_shape (s\<lparr>sb_x := ys, sb_count := sb_count s + 1\<rparr>)"
    using assms(1) ys(2) by (simp add: sobol_shape_def)
  have "unat (sb_count s + 1) = Suc (unat (sb_count s))"
    using assms(2) by (simp add: unat_word_ariths)
  then show ?thesis using sh by (simp add: sobol_next_cases ys(1))
qed

lemma sobol_next_times_Some:
  assumes "sobol_shape s" and "unat (sb_count s) + k \<le> 2 ^ 32 - 1"
  shows "\<exists>r. sobol_next_times k s point = Some r"
  using assms
proof (induction k arbitrary: s point)
  case 0
  show ?case by simp
next
  case (Suc k)
  have "unat (sb_count s) < 2 ^ 32 - 1" using Suc.prems(2) by simp
  then obtain s1 p1 where n: "mco_sobol_next s = Some (s1, p1)" "sobol_shape s1"
      "unat (sb_count s1) = Suc (unat (sb_count s))"
    using sobol_next_Some [OF Suc.prems(1)] by blast
  have "unat (sb_count s1) + k \<le> 2 ^ 32 - 1" using n(3) Suc.prems(2) by simp
  then obtain r where "sobol_next_times k s1 p1 = Some r" using Suc.IH [OF n(2)] by blast
  then show ?case using n(1) by simp
qed

lemma length_fold_update:
  "length (fold (\<lambda>k row. row[k := f k row]) ks row) = length row"
  by (induction ks arbitrary: row) simp_all

lemma sobol_row_tab_length: "length (sobol_row_tab d) = MCO_SOBOL_BITS"
  unfolding sobol_row_tab_def Let_def by (simp only: length_fold_update length_replicate)

lemma sobol_init_shape:
  assumes "mco_sobol_init dm = Some s"
  shows "sobol_shape s"
proof -
  have ok: "dm \<noteq> 0" "unat dm \<le> MCO_SOBOL_MAX_DIM"
    using assms by (auto simp: mco_sobol_init_def split: if_splits)
  have s: "s = \<lparr>sb_dim = dm, sb_count = 0,
                 sb_x = replicate MCO_SOBOL_MAX_DIM 0,
                 sb_v = map (\<lambda>d. if d < unat dm
                                    then (if d = 0 then sobol_row_first
                                          else if d < 40 then sobol_row_tab d
                                          else sobol_row_fallback d)
                                    else replicate MCO_SOBOL_BITS 0)
                          [0..<MCO_SOBOL_MAX_DIM]\<rparr>"
    using assms by (auto simp: mco_sobol_init_def split: if_splits)
  define f where "f = (\<lambda>d. if d < unat dm
                                    then (if d = 0 then sobol_row_first
                                          else if d < 40 then sobol_row_tab d
                                          else sobol_row_fallback d)
                                    else replicate MCO_SOBOL_BITS 0)"
  have fl: "\<And>d. length (f d) = MCO_SOBOL_BITS"
    by (simp add: f_def sobol_row_first_def sobol_row_fallback_def sobol_row_tab_length)
  have v: "sb_v s = map f [0..<MCO_SOBOL_MAX_DIM]" by (simp add: s f_def)
  have rows: "list_all (\<lambda>row. length row = MCO_SOBOL_BITS) (sb_v s)"
    unfolding v by (simp add: list_all_iff fl)
  have "list_all (\<lambda>row. length row = MCO_SOBOL_BITS) (take (unat (sb_dim s)) (sb_v s))"
    using rows by (auto simp: list_all_iff dest: in_set_takeD)
  then show ?thesis
    unfolding sobol_shape_def using ok by (simp add: s)
qed

lemma sobol_init_Some:
  assumes "dm \<noteq> 0" and "unat dm \<le> MCO_SOBOL_MAX_DIM"
  shows "\<exists>s. mco_sobol_init dm = Some s"
  using assms by (simp add: mco_sobol_init_def)

text \<open>
  C7. For every Sobol state and every \<open>k\<close>: reset, then skip \<open>k\<close>, then next gives the same
  point and the same state (index and integer vector) as reset followed by \<open>k + 1\<close> calls of
  next, keeping the last point.  Both sides are the same value also where a run reads
  outside a row of direction numbers (\<open>None\<close>); for a state of the shape that
  \<^verbatim>\<open>mco_sobol_init\<close> establishes and \<open>k < 2\<^sup>3\<^sup>2 - 1\<close> the common value is a proper result.
\<close>

theorem sobol_skip_next_eq_repeated_next:
  "Option.bind (Option.bind (mco_sobol_reset s) (\<lambda>s0. mco_sobol_skip s0 k)) mco_sobol_next
     = Option.bind (mco_sobol_reset s) (\<lambda>s0. sobol_next_times (Suc (unat k)) s0 point)
   \<and> (sobol_shape s \<and> unat k < 2 ^ 32 - 1 \<longrightarrow>
        Option.bind (mco_sobol_reset s) (\<lambda>s0. sobol_next_times (Suc (unat k)) s0 point) \<noteq> None)"
proof (intro conjI impI)
  show "Option.bind (Option.bind (mco_sobol_reset s) (\<lambda>s0. mco_sobol_skip s0 k)) mco_sobol_next
     = Option.bind (mco_sobol_reset s) (\<lambda>s0. sobol_next_times (Suc (unat k)) s0 point)"
    by (cases "mco_sobol_reset s")
       (simp_all add: mco_sobol_skip_def sobol_skip_then_next_loop [of _ _ point])
next
  assume a: "sobol_shape s \<and> unat k < 2 ^ 32 - 1"
  then obtain s0 where s0: "mco_sobol_reset s = Some s0" "sobol_shape s0" "sb_count s0 = 0"
    using sobol_reset_Some by blast
  have "unat (sb_count s0) + Suc (unat k) \<le> 2 ^ 32 - 1" using a s0(3) by simp
  then obtain r where "sobol_next_times (Suc (unat k)) s0 point = Some r"
    using sobol_next_times_Some [OF s0(2)] by blast
  then show "Option.bind (mco_sobol_reset s) (\<lambda>s0. sobol_next_times (Suc (unat k)) s0 point) \<noteq> None"
    using s0(1) by simp
qed

theorem sobol_skip_next_witness:
  "sobol_shape (the (mco_sobol_init 2)) \<and>
   unat (3 :: u64) < 2 ^ 32 - 1 \<and>
   Option.bind (Option.bind (mco_sobol_reset (the (mco_sobol_init 2)))
                  (\<lambda>s0. mco_sobol_skip s0 3)) mco_sobol_next
     = Option.bind (mco_sobol_reset (the (mco_sobol_init 2)))
         (\<lambda>s0. sobol_next_times (Suc (unat (3 :: u64))) s0 []) \<and>
   Option.bind (mco_sobol_reset (the (mco_sobol_init 2)))
         (\<lambda>s0. sobol_next_times (Suc (unat (3 :: u64))) s0 []) \<noteq> None"
proof -
  have "(2 :: u32) \<noteq> 0" and "unat (2 :: u32) \<le> MCO_SOBOL_MAX_DIM"
    by (simp_all add: MCO_SOBOL_MAX_DIM_def)
  then obtain s where s: "mco_sobol_init 2 = Some s" using sobol_init_Some by blast
  have sh: "sobol_shape (the (mco_sobol_init 2))"
    using sobol_init_shape [OF s] s by simp
  have k: "unat (3 :: u64) < 2 ^ 32 - 1" by simp
  show ?thesis
    using sobol_skip_next_eq_repeated_next [of "the (mco_sobol_init 2)" 3 "[]"] sh k
    by blast
qed

section \<open>Work units partition the simulations\<close>

lemma unit_bound_Suc: "unit_bound q r (Suc k) = unit_bound q r k + q + (if k < r then 1 else 0)"
  by (simp add: unit_bound_def min_def)

lemma unit_bound_mono: "j \<le> k \<Longrightarrow> unit_bound q r j \<le> unit_bound q r k"
  unfolding unit_bound_def by (intro add_mono mult_right_mono) (simp_all add: min_def)

lemma unit_bound_total: "r \<le> t \<Longrightarrow> unit_bound q r t = t * q + r"
  by (simp add: unit_bound_def min_def)

lemma unat_ucast_u32_u64: "unat (ucast (i :: u32) :: u64) = unat i"
proof -
  have "unat (ucast i :: u64) = take_bit 64 (unat i)"
    by (simp add: unsigned_ucast_eq)
  moreover have "unat i < 2 ^ 32"
    using unsigned_less [of i, where ?'a = nat] by simp
  then have "unat i < 2 ^ 64" by (rule less_trans) simp
  ultimately show "unat (ucast i :: u64) = unat i"
    by (simp only: take_bit_nat_eq_self)
qed

lemma unat_succ_u32:
  assumes "unat (i :: u32) < unat (t :: u32)"
  shows "unat (i + 1) = Suc (unat i)"
proof -
  have "unat t < 2 ^ 32" using unsigned_less [of t, where ?'a = nat] by simp
  then have "Suc (unat i) < 2 ^ 32" using assms by linarith
  then show ?thesis by (simp add: unat_word_ariths)
qed

lemma jump_shift:
  assumes "Suc k \<le> j"
  shows "(mco_rng_jump ^^ (j - Suc k)) (mco_rng_jump g) = (mco_rng_jump ^^ (j - k)) g"
proof -
  have "j - k = Suc (j - Suc k)" using assms by simp
  then show ?thesis by (simp only: funpow_Suc_right o_apply)
qed

lemma thread_work_loop_spec:
  assumes "unat i \<le> unat nthreads" and "length work = unat nthreads"
    and "start = of_nat (unit_bound q r (unat i))"
    and "spt = of_nat q" and "unat remainder = r"
  shows "\<exists>ws. thread_work_loop i nthreads spt remainder g start work = Some ws \<and>
           length ws = length work \<and>
           (\<forall>j < length work.
              (j < unat i \<longrightarrow> ws ! j = work ! j) \<and>
              (unat i \<le> j \<longrightarrow>
                 ws ! j = (work ! j)\<lparr>w_rng := (mco_rng_jump ^^ (j - unat i)) g,
                                      start_sim := of_nat (unit_bound q r j),
                                      end_sim := of_nat (unit_bound q r (Suc j)),
                                      partial_sum := 0, partial_sum_sq := 0\<rparr>))"
  using assms(1,2,3)
proof (induction "unat nthreads - unat i" arbitrary: i g start work)
  case 0
  then have "\<not> i < nthreads" by (simp add: word_less_nat_alt)
  then have "thread_work_loop i nthreads spt remainder g start work = Some work"
    by (subst thread_work_loop.simps) (simp only: if_False)
  moreover have "\<forall>j < length work. j < unat i" using 0 by simp
  ultimately show ?case by auto
next
  case (Suc n)
  have lt: "unat i < unat nthreads" using Suc.hyps(2) by simp
  then have ilt: "i < nthreads" by (simp add: word_less_nat_alt)
  have ui: "unat (i + 1) = Suc (unat i)" using lt by (rule unat_succ_u32)
  have inb: "unat i < length work" using lt Suc.prems(2) by simp
  have cmp: "((ucast i :: u64) < remainder) = (unat i < r)"
    by (simp only: word_less_nat_alt assms(5) unat_ucast_u32_u64)
  define cnt :: u64 where "cnt = spt + (if ucast i < remainder then 1 else 0)"
  define unit where "unit = (work ! unat i)\<lparr>w_rng := g, start_sim := start, end_sim := start + cnt,
                                        partial_sum := 0, partial_sum_sq := 0\<rparr>"
  have nxt: "start + cnt = of_nat (unit_bound q r (Suc (unat i)))"
    unfolding cnt_def Suc.prems(3) assms(4) cmp unit_bound_Suc by simp
  have step: "thread_work_loop i nthreads spt remainder g start work =
                thread_work_loop (i + 1) nthreads spt remainder (mco_rng_jump g) (start + cnt)
                  (work[unat i := unit])"
    by (subst thread_work_loop.simps) (simp only: ilt inb if_True Let_def cnt_def unit_def)
  have m: "n = unat nthreads - unat (i + 1)" using Suc.hyps(2) ui by simp
  have p1: "unat (i + 1) \<le> unat nthreads" using lt ui by simp
  have p2: "length (work[unat i := unit]) = unat nthreads" using Suc.prems(2) by simp
  have p3: "start + cnt = of_nat (unit_bound q r (unat (i + 1)))" using nxt ui by simp
  obtain ws where ws:
    "thread_work_loop (i + 1) nthreads spt remainder (mco_rng_jump g) (start + cnt)
       (work[unat i := unit]) = Some ws"
    "length ws = length (work[unat i := unit])"
    "\<forall>j < length (work[unat i := unit]).
       (j < unat (i + 1) \<longrightarrow> ws ! j = work[unat i := unit] ! j) \<and>
       (unat (i + 1) \<le> j \<longrightarrow>
          ws ! j = (work[unat i := unit] ! j)
                     \<lparr>w_rng := (mco_rng_jump ^^ (j - unat (i + 1))) (mco_rng_jump g),
                      start_sim := of_nat (unit_bound q r j),
                      end_sim := of_nat (unit_bound q r (Suc j)),
                      partial_sum := 0, partial_sum_sq := 0\<rparr>)"
    using Suc.hyps(1) [OF m p1 p2 p3] by blast
  have wsj: "\<And>j. j < length work \<Longrightarrow>
       (j < Suc (unat i) \<longrightarrow> ws ! j = work[unat i := unit] ! j) \<and>
       (Suc (unat i) \<le> j \<longrightarrow>
          ws ! j = (work[unat i := unit] ! j)
                     \<lparr>w_rng := (mco_rng_jump ^^ (j - Suc (unat i))) (mco_rng_jump g),
                      start_sim := of_nat (unit_bound q r j),
                      end_sim := of_nat (unit_bound q r (Suc j)),
                      partial_sum := 0, partial_sum_sq := 0\<rparr>)"
    using ws(3) unfolding ui by simp
  have "\<forall>j < length work.
          (j < unat i \<longrightarrow> ws ! j = work ! j) \<and>
          (unat i \<le> j \<longrightarrow>
             ws ! j = (work ! j)\<lparr>w_rng := (mco_rng_jump ^^ (j - unat i)) g,
                                  start_sim := of_nat (unit_bound q r j),
                                  end_sim := of_nat (unit_bound q r (Suc j)),
                                  partial_sum := 0, partial_sum_sq := 0\<rparr>)"
  proof (intro allI impI conjI)
    fix j assume j: "j < length work" and jl: "j < unat i"
    then have "ws ! j = work[unat i := unit] ! j" using wsj [OF j] by simp
    then show "ws ! j = work ! j" using jl by simp
  next
    fix j assume j: "j < length work" and ge: "unat i \<le> j"
    show "ws ! j = (work ! j)\<lparr>w_rng := (mco_rng_jump ^^ (j - unat i)) g,
                                  start_sim := of_nat (unit_bound q r j),
                                  end_sim := of_nat (unit_bound q r (Suc j)),
                                  partial_sum := 0, partial_sum_sq := 0\<rparr>"
    proof (cases "j = unat i")
      case True
      then have "ws ! j = work[unat i := unit] ! j" using wsj [OF j] by simp
      then have "ws ! j = unit" using True inb by simp
      moreover have "j - unat i = 0" using True by simp
      ultimately show ?thesis
        using nxt unfolding unit_def True by (simp add: Suc.prems(3) [symmetric])
    next
      case False
      then have g2: "Suc (unat i) \<le> j" using ge by simp
      have "ws ! j = (work[unat i := unit] ! j)
                     \<lparr>w_rng := (mco_rng_jump ^^ (j - Suc (unat i))) (mco_rng_jump g),
                      start_sim := of_nat (unit_bound q r j),
                      end_sim := of_nat (unit_bound q r (Suc j)),
                      partial_sum := 0, partial_sum_sq := 0\<rparr>"
        using wsj [OF j] g2 by blast
      moreover have "work[unat i := unit] ! j = work ! j" using False by simp
      ultimately show ?thesis by (simp only: jump_shift [OF g2])
    qed
  qed
  then show ?case using step ws(1,2) by simp
qed

lemma unit_ranges_union:
  "(\<Union>j<n. {unit_bound q r j..<unit_bound q r (Suc j)}) = {0..<unit_bound q r n}"
proof (induction n)
  case 0
  show ?case by (simp add: unit_bound_def)
next
  case (Suc n)
  have b: "unit_bound q r n \<le> unit_bound q r (Suc n)" by (rule unit_bound_mono) simp
  have "(\<Union>j<Suc n. {unit_bound q r j..<unit_bound q r (Suc j)})
          = {0..<unit_bound q r n} \<union> {unit_bound q r n..<unit_bound q r (Suc n)}"
    using Suc.IH by (simp add: lessThan_Suc Un_commute)
  also have "\<dots> = {0..<unit_bound q r (Suc n)}"
    using b by auto
  finally show ?case .
qed

lemma unit_ranges_disjoint:
  assumes "i \<noteq> j"
  shows "{unit_bound q r i..<unit_bound q r (Suc i)} \<inter> {unit_bound q r j..<unit_bound q r (Suc j)} = {}"
proof (cases "i < j")
  case True
  then have "unit_bound q r (Suc i) \<le> unit_bound q r j" by (intro unit_bound_mono) simp
  then show ?thesis by auto
next
  case False
  then have "j < i" using assms by simp
  then have "unit_bound q r (Suc j) \<le> unit_bound q r i" by (intro unit_bound_mono) simp
  then show ?thesis by auto
qed

text \<open>
  C1. For a thread count \<open>T \<ge> 1\<close>, an array of \<open>T\<close> work units, any total \<open>N\<close> and any
  base generator, \<^verbatim>\<open>mco_thread_work_init\<close> gives unit \<open>i\<close> the half-open range from
  \<open>i * (N div T) + min i (N mod T)\<close> to the same bound at \<open>i + 1\<close>, so the ranges are
  contiguous, pairwise disjoint and their union is \<open>[0, N)\<close>; unit \<open>i\<close> holds the base
  generator jumped exactly \<open>i\<close> times.
\<close>

theorem thread_work_partition:
  assumes "nthreads \<noteq> 0" and "length work = unat nthreads"
  shows "\<exists>ws. mco_thread_work_init work nthreads base total_sims = Some ws \<and>
           length ws = unat nthreads \<and>
           (\<Union>i<unat nthreads. sim_range (ws ! i)) = {0..<unat total_sims} \<and>
           (\<forall>i<unat nthreads. \<forall>j<unat nthreads.
               i \<noteq> j \<longrightarrow> sim_range (ws ! i) \<inter> sim_range (ws ! j) = {}) \<and>
           (\<forall>i<unat nthreads.
               w_rng (ws ! i) = (mco_rng_jump ^^ i) base \<and>
               unat (start_sim (ws ! i))
                 = unit_bound (unat total_sims div unat nthreads) (unat total_sims mod unat nthreads) i \<and>
               unat (end_sim (ws ! i))
                 = unit_bound (unat total_sims div unat nthreads) (unat total_sims mod unat nthreads) (Suc i))"
proof -
  define T where "T = unat nthreads"
  define N where "N = unat total_sims"
  define q where "q = N div T"
  define r where "r = N mod T"
  define spt :: u64 where "spt = total_sims div ucast nthreads"
  define remainder :: u64 where "remainder = total_sims mod ucast nthreads"
  have Tpos: "0 < T" using assms(1) by (simp add: T_def unat_gt_0)
  have uT: "unat (ucast nthreads :: u64) = T" by (simp only: T_def unat_ucast_u32_u64)
  have uq: "unat spt = q" by (simp only: spt_def unat_div uT q_def N_def)
  have ur: "unat remainder = r" by (simp only: remainder_def unat_mod uT r_def N_def)
  have sq: "spt = of_nat q" unfolding uq [symmetric] by simp
  have rT: "r \<le> T" using Tpos by (simp add: r_def less_imp_le)
  have bT: "unit_bound q r T = N"
  proof -
    have "unit_bound q r T = T * q + r" by (rule unit_bound_total [OF rT])
    then show ?thesis by (simp add: q_def r_def)
  qed
  have Nlt: "N < 2 ^ 64" using unsigned_less [of total_sims, where ?'a = nat] by (simp add: N_def)
  have small: "\<And>k. k \<le> T \<Longrightarrow> unat (of_nat (unit_bound q r k) :: u64) = unit_bound q r k"
  proof -
    fix k assume "k \<le> T"
    then have "unit_bound q r k \<le> N" using unit_bound_mono [of k T q r] bT by simp
    then have "unit_bound q r k < 2 ^ 64" using Nlt by simp
    then show "unat (of_nat (unit_bound q r k) :: u64) = unit_bound q r k"
      by (simp add: unat_of_nat)
  qed
  have z: "(0 :: u64) = of_nat (unit_bound q r (unat (0 :: u32)))" by (simp add: unit_bound_def)
  have le0: "unat (0 :: u32) \<le> unat nthreads" by simp
  obtain ws where ws:
    "thread_work_loop 0 nthreads spt remainder base 0 work = Some ws"
    "length ws = length work"
    "\<forall>j < length work.
        (j < unat (0 :: u32) \<longrightarrow> ws ! j = work ! j) \<and>
        (unat (0 :: u32) \<le> j \<longrightarrow>
           ws ! j = (work ! j)\<lparr>w_rng := (mco_rng_jump ^^ (j - unat (0 :: u32))) base,
                                start_sim := of_nat (unit_bound q r j),
                                end_sim := of_nat (unit_bound q r (Suc j)),
                                partial_sum := 0, partial_sum_sq := 0\<rparr>)"
    using thread_work_loop_spec [OF le0 assms(2) z sq ur, of base] by blast
  have unit: "\<And>j. j < T \<Longrightarrow>
      w_rng (ws ! j) = (mco_rng_jump ^^ j) base \<and>
      unat (start_sim (ws ! j)) = unit_bound q r j \<and>
      unat (end_sim (ws ! j)) = unit_bound q r (Suc j)"
  proof -
    fix j assume j: "j < T"
    then have "ws ! j = (work ! j)\<lparr>w_rng := (mco_rng_jump ^^ j) base,
                                start_sim := of_nat (unit_bound q r j),
                                end_sim := of_nat (unit_bound q r (Suc j)),
                                partial_sum := 0, partial_sum_sq := 0\<rparr>"
      using ws(3) assms(2) by (simp add: T_def)
    then show "w_rng (ws ! j) = (mco_rng_jump ^^ j) base \<and>
      unat (start_sim (ws ! j)) = unit_bound q r j \<and>
      unat (end_sim (ws ! j)) = unit_bound q r (Suc j)"
      using small [of j] small [of "Suc j"] j by simp
  qed
  have rng: "\<And>j. j < T \<Longrightarrow> sim_range (ws ! j) = {unit_bound q r j..<unit_bound q r (Suc j)}"
    using unit by (simp add: sim_range_def)
  have init: "mco_thread_work_init work nthreads base total_sims = Some ws"
    using assms(1) ws(1) by (simp add: mco_thread_work_init_def Let_def spt_def remainder_def)
  have un: "(\<Union>i<T. sim_range (ws ! i)) = {0..<N}"
  proof -
    have "(\<Union>i<T. sim_range (ws ! i)) = (\<Union>i<T. {unit_bound q r i..<unit_bound q r (Suc i)})"
      using rng by auto
    then show ?thesis by (simp only: unit_ranges_union bT)
  qed
  have dj: "\<forall>i<T. \<forall>j<T. i \<noteq> j \<longrightarrow> sim_range (ws ! i) \<inter> sim_range (ws ! j) = {}"
    using rng unit_ranges_disjoint by simp
  have len: "length ws = T" using ws(2) assms(2) by (simp add: T_def)
  show ?thesis
    using init len un dj unit
    unfolding T_def [symmetric] N_def [symmetric] q_def [symmetric] r_def [symmetric]
    by blast
qed

theorem thread_work_partition_witness:
  "(3 :: u32) \<noteq> 0 \<and>
   length (replicate 3 \<lparr>w_rng = \<lparr>s_0 = 0, s_1 = 0, s_2 = 0, s_3 = 0\<rparr>, start_sim = 0,
                         end_sim = 0, partial_sum = 0, partial_sum_sq = 0, w_spot = 0,
                         w_strike = 0, w_rate = 0, w_volatility = 0, w_time_to_maturity = 0,
                         w_option_type = MCO_CALL, w_antithetic = 0\<rparr>) = unat (3 :: u32) \<and>
   (\<exists>ws. mco_thread_work_init
            (replicate 3 \<lparr>w_rng = \<lparr>s_0 = 0, s_1 = 0, s_2 = 0, s_3 = 0\<rparr>, start_sim = 0,
                         end_sim = 0, partial_sum = 0, partial_sum_sq = 0, w_spot = 0,
                         w_strike = 0, w_rate = 0, w_volatility = 0, w_time_to_maturity = 0,
                         w_option_type = MCO_CALL, w_antithetic = 0\<rparr>)
            3 \<lparr>s_0 = 1, s_1 = 2, s_2 = 3, s_3 = 4\<rparr> 10 = Some ws \<and>
         length ws = 3 \<and>
         (\<Union>i<3. sim_range (ws ! i)) = {0..<10} \<and>
         w_rng (ws ! 2) = (mco_rng_jump ^^ 2) \<lparr>s_0 = 1, s_1 = 2, s_2 = 3, s_3 = 4\<rparr> \<and>
         unat (start_sim (ws ! 1)) = 4 \<and> unat (end_sim (ws ! 1)) = 7)"
proof -
  define work0 where
    "work0 = replicate 3 \<lparr>w_rng = \<lparr>s_0 = 0, s_1 = 0, s_2 = 0, s_3 = 0\<rparr>, start_sim = 0,
                         end_sim = 0, partial_sum = 0, partial_sum_sq = 0, w_spot = 0,
                         w_strike = 0, w_rate = 0, w_volatility = 0, w_time_to_maturity = 0,
                         w_option_type = MCO_CALL, w_antithetic = 0\<rparr>"
  define base0 where "base0 = \<lparr>s_0 = 1, s_1 = 2, s_2 = 3, s_3 = (4 :: u64)\<rparr>"
  have nz: "(3 :: u32) \<noteq> 0" by simp
  have len: "length work0 = unat (3 :: u32)" by (simp add: work0_def)
  obtain ws where ws:
    "mco_thread_work_init work0 3 base0 10 = Some ws"
    "length ws = unat (3 :: u32)"
    "(\<Union>i<unat (3 :: u32). sim_range (ws ! i)) = {0..<unat (10 :: u64)}"
    "\<forall>i<unat (3 :: u32).
        w_rng (ws ! i) = (mco_rng_jump ^^ i) base0 \<and>
        unat (start_sim (ws ! i))
          = unit_bound (unat (10 :: u64) div unat (3 :: u32)) (unat (10 :: u64) mod unat (3 :: u32)) i \<and>
        unat (end_sim (ws ! i))
          = unit_bound (unat (10 :: u64) div unat (3 :: u32)) (unat (10 :: u64) mod unat (3 :: u32)) (Suc i)"
    using thread_work_partition [OF nz len, of base0 10] by blast
  have u3: "unat (3 :: u32) = 3" and u10: "unat (10 :: u64) = 10" by simp_all
  have i1: "(1 :: nat) < unat (3 :: u32)" and i2: "(2 :: nat) < unat (3 :: u32)" by simp_all
  have a: "unat (start_sim (ws ! 1)) = 4" "unat (end_sim (ws ! 1)) = 7"
    using ws(4) [rule_format, OF i1] by (simp_all add: unit_bound_def)
  have b: "w_rng (ws ! 2) = (mco_rng_jump ^^ 2) base0"
    using ws(4) [rule_format, OF i2] by simp
  have "mco_thread_work_init work0 3 base0 10 = Some ws \<and> length ws = 3 \<and>
        (\<Union>i<3. sim_range (ws ! i)) = {0..<10} \<and>
        w_rng (ws ! 2) = (mco_rng_jump ^^ 2) base0 \<and>
        unat (start_sim (ws ! 1)) = 4 \<and> unat (end_sim (ws ! 1)) = 7"
    using ws(1,2,3) a b unfolding u3 u10 by simp
  then show ?thesis using nz len unfolding work0_def base0_def by blast
qed

section \<open>Cash flows of the least-squares method\<close>

lemma lsm_gen_paths_length: "length (lsm_gen_paths k m g) = k"
proof (induction k arbitrary: g)
  case 0
  show ?case by simp
next
  case (Suc k)
  obtain path g1 where p: "mco_gbm_simulate_path m g = (path, g1)"
    by (cases "mco_gbm_simulate_path m g")
  show ?case by (simp add: p Suc.IH)
qed

lemma lsm_exercise_loop_inv:
  assumes "lsm_inv paths strike ty df nsteps step cashflow exercise_time" and "step \<le> nsteps"
  shows "lsm_inv paths strike ty df nsteps step
           (fst (lsm_exercise_loop idxs paths step strike ty coeffs (cashflow, exercise_time)))
           (snd (lsm_exercise_loop idxs paths step strike ty coeffs (cashflow, exercise_time)))"
  using assms(1)
proof (induction idxs arbitrary: cashflow exercise_time)
  case Nil
  then show ?case by simp
next
  case (Cons i rest)
  define ev where "ev = mco_payoff (paths ! i ! step) strike ty"
  define cont where "cont = fold (\<lambda>k acc. acc + coeffs ! k * mco_lsm_basis (paths ! i ! step / strike) ! k)
                              [0..<MCO_LSM_NUM_BASIS] 0"
  show ?case
  proof (cases "ev > cont")
    case False
    then have "lsm_exercise_loop (i # rest) paths step strike ty coeffs (cashflow, exercise_time)
                 = lsm_exercise_loop rest paths step strike ty coeffs (cashflow, exercise_time)"
      by (simp add: Let_def ev_def cont_def)
    then show ?thesis using Cons.IH [OF Cons.prems] by simp
  next
    case True
    then have e: "lsm_exercise_loop (i # rest) paths step strike ty coeffs (cashflow, exercise_time)
                 = lsm_exercise_loop rest paths step strike ty coeffs
                     (cashflow[i := ev], exercise_time[i := step])"
      by (simp add: Let_def ev_def cont_def)
    have "lsm_inv paths strike ty df nsteps step (cashflow[i := ev]) (exercise_time[i := step])"
      unfolding lsm_inv_def
    proof (intro conjI allI impI)
      show "length (cashflow[i := ev]) = length paths"
        using Cons.prems by (simp add: lsm_inv_def)
      show "length (exercise_time[i := step]) = length paths"
        using Cons.prems by (simp add: lsm_inv_def)
    next
      fix j assume j: "j < length paths"
      have old: "step \<le> exercise_time ! j" "exercise_time ! j \<le> nsteps"
        "cashflow ! j = mco_payoff (paths ! j ! (exercise_time ! j)) strike ty
                          * df ^ (exercise_time ! j - step)"
        "j < length cashflow" "j < length exercise_time"
        using Cons.prems j by (simp_all add: lsm_inv_def)
      show "step \<le> exercise_time[i := step] ! j"
        using old(1,5) by (cases "i = j") simp_all
      show "exercise_time[i := step] ! j \<le> nsteps"
        using old(2,5) assms(2) by (cases "i = j") simp_all
      show "cashflow[i := ev] ! j
              = mco_payoff (paths ! j ! (exercise_time[i := step] ! j)) strike ty
                  * df ^ (exercise_time[i := step] ! j - step)"
        using old(3,4,5) by (cases "i = j") (simp_all add: ev_def)
    qed
    then show ?thesis using Cons.IH e by simp
  qed
qed

lemma lsm_discount_inv:
  assumes "lsm_inv paths strike ty df nsteps (Suc step) cashflow exercise_time"
  shows "lsm_inv paths strike ty df nsteps step (map (\<lambda>v. v * df) cashflow) exercise_time"
  unfolding lsm_inv_def
proof (intro conjI allI impI)
  show "length (map (\<lambda>v. v * df) cashflow) = length paths"
    using assms by (simp add: lsm_inv_def)
  show "length exercise_time = length paths" using assms by (simp add: lsm_inv_def)
next
  fix i assume i: "i < length paths"
  have a: "Suc step \<le> exercise_time ! i" "exercise_time ! i \<le> nsteps"
    "cashflow ! i = mco_payoff (paths ! i ! (exercise_time ! i)) strike ty
                      * df ^ (exercise_time ! i - Suc step)"
    "i < length cashflow"
    using assms i by (simp_all add: lsm_inv_def)
  show "step \<le> exercise_time ! i" using a(1) by simp
  show "exercise_time ! i \<le> nsteps" by (rule a(2))
  have "exercise_time ! i - step = Suc (exercise_time ! i - Suc step)" using a(1) by simp
  then show "map (\<lambda>v. v * df) cashflow ! i
          = mco_payoff (paths ! i ! (exercise_time ! i)) strike ty * df ^ (exercise_time ! i - step)"
    using a(3,4) by simp
qed

lemma lsm_step_inv:
  assumes "lsm_inv paths strike ty df nsteps (Suc step) cashflow exercise_time"
    and "step \<le> nsteps"
  shows "lsm_inv paths strike ty df nsteps step
           (fst (lsm_step paths strike ty df step (cashflow, exercise_time)))
           (snd (lsm_step paths strike ty df step (cashflow, exercise_time)))"
proof -
  define cf1 where "cf1 = map (\<lambda>v. v * df) cashflow"
  have i1: "lsm_inv paths strike ty df nsteps step cf1 exercise_time"
    unfolding cf1_def by (rule lsm_discount_inv [OF assms(1)])
  obtain itm A Y where it:
    "lsm_itm_loop [0..<length paths] paths step strike ty cf1 ([], [], []) = (itm, A, Y)"
    by (cases "lsm_itm_loop [0..<length paths] paths step strike ty cf1 ([], [], [])") auto
  obtain rc coeffs where rg: "mco_lsm_regress A Y MCO_LSM_NUM_BASIS = (rc, coeffs)"
    by (cases "mco_lsm_regress A Y MCO_LSM_NUM_BASIS")
  have st: "lsm_step paths strike ty df step (cashflow, exercise_time) =
          (if length itm < MCO_LSM_NUM_BASIS then (cf1, exercise_time)
           else if rc \<noteq> 0 then (cf1, exercise_time)
           else lsm_exercise_loop itm paths step strike ty coeffs (cf1, exercise_time))"
    by (simp add: lsm_step_def Let_def cf1_def [symmetric] it rg)
  show ?thesis
    unfolding st using i1 lsm_exercise_loop_inv [OF i1 assms(2)] by simp
qed

lemma lsm_backward_inv:
  assumes "lsm_inv paths strike ty df nsteps (Suc k) cashflow exercise_time" and "k \<le> nsteps"
  shows "lsm_inv paths strike ty df nsteps 1
           (fst (lsm_backward k paths strike ty df (cashflow, exercise_time)))
           (snd (lsm_backward k paths strike ty df (cashflow, exercise_time)))"
  using assms
proof (induction k arbitrary: cashflow exercise_time)
  case 0
  then show ?case by simp
next
  case (Suc k)
  obtain cf1 ex1 where s: "lsm_step paths strike ty df (Suc k) (cashflow, exercise_time) = (cf1, ex1)"
    by (cases "lsm_step paths strike ty df (Suc k) (cashflow, exercise_time)")
  have "lsm_inv paths strike ty df nsteps (Suc k) cf1 ex1"
    using lsm_step_inv [OF Suc.prems(1) Suc.prems(2)] s by simp
  then show ?case using Suc.IH [of cf1 ex1] Suc.prems(2) s by simp
qed

lemma funpow_times: "((\<lambda>v :: real. v * d) ^^ k) p = p * d ^ k"
  by (induction k) simp_all

lemma foldl_add_sum_list: "foldl (\<lambda>a v. a + v) (a :: real) xs = a + sum_list xs"
  by (induction xs arbitrary: a) simp_all

lemma lsm_final_inv:
  assumes "nsteps \<noteq> 0"
  shows "\<exists>cf1 ex1.
           lsm_final c spot strike rate volatility tm nsteps ty
             = (lsm_gen_paths (unat (num_simulations c))
                  (mco_gbm_path_init spot rate volatility tm nsteps) (rng c),
                map (\<lambda>v. v * exp (- rate * (tm / real nsteps))) cf1, ex1) \<and>
           lsm_inv (lsm_gen_paths (unat (num_simulations c))
                      (mco_gbm_path_init spot rate volatility tm nsteps) (rng c))
             strike ty (exp (- rate * (tm / real nsteps))) nsteps 1 cf1 ex1"
proof -
  define n where "n = unat (num_simulations c)"
  define df where "df = exp (- rate * (tm / real nsteps))"
  define paths where
    "paths = lsm_gen_paths n (mco_gbm_path_init spot rate volatility tm nsteps) (rng c)"
  define ex0 where "ex0 = replicate n nsteps"
  define cf0 where "cf0 = map (\<lambda>path. mco_payoff (path ! nsteps) strike ty) paths"
  have len: "length paths = n" by (simp add: paths_def lsm_gen_paths_length)
  have sk: "Suc (nsteps - 1) = nsteps" using assms by simp
  have "lsm_inv paths strike ty df nsteps nsteps cf0 ex0"
    unfolding lsm_inv_def using len by (simp add: cf0_def ex0_def)
  then have inv0: "lsm_inv paths strike ty df nsteps (Suc (nsteps - 1)) cf0 ex0"
    by (simp only: sk)
  obtain cf1 ex1 where bw: "lsm_backward (nsteps - 1) paths strike ty df (cf0, ex0) = (cf1, ex1)"
    by (cases "lsm_backward (nsteps - 1) paths strike ty df (cf0, ex0)")
  have inv1: "lsm_inv paths strike ty df nsteps 1 cf1 ex1"
    using lsm_backward_inv [OF inv0] bw by simp
  have "lsm_final c spot strike rate volatility tm nsteps ty = (paths, map (\<lambda>v. v * df) cf1, ex1)"
    unfolding lsm_final_def Let_def n_def [symmetric] df_def [symmetric] paths_def [symmetric]
      ex0_def [symmetric] cf0_def [symmetric] bw
    by simp
  then show ?thesis
    using inv1 unfolding paths_def df_def n_def by blast
qed

text \<open>
  C3. In \<^verbatim>\<open>mco_lsm_american\<close> with \<open>S\<close> steps (\<open>S > 0\<close>), the final cash flow of every path
  is its intrinsic payoff at its exercise step \<open>s\<close>, with \<open>1 \<le> s \<le> S\<close>, multiplied by the
  single-step discount \<open>exp (- r * (T / S))\<close> exactly \<open>s\<close> times; a path whose exercise step is
  still \<open>S\<close> carries its terminal payoff times \<open>exp (- r * T)\<close>; and the price returned is
  the sum of the final cash flows divided by the number of paths.
\<close>

theorem lsm_cashflows_discounted:
  assumes "nsteps \<noteq> 0"
  shows "case lsm_final c spot strike rate volatility tm nsteps ty of
           (paths, cashflow, exercise_time) \<Rightarrow>
             length paths = unat (num_simulations c) \<and>
             length cashflow = unat (num_simulations c) \<and>
             length exercise_time = unat (num_simulations c) \<and>
             (\<forall>i < unat (num_simulations c).
                 1 \<le> exercise_time ! i \<and> exercise_time ! i \<le> nsteps \<and>
                 cashflow ! i =
                   ((\<lambda>v. v * exp (- rate * (tm / real nsteps))) ^^ (exercise_time ! i))
                     (mco_payoff (paths ! i ! (exercise_time ! i)) strike ty) \<and>
                 (exercise_time ! i = nsteps \<longrightarrow>
                    cashflow ! i = mco_payoff (paths ! i ! nsteps) strike ty * exp (- rate * tm))) \<and>
             mco_lsm_american (Some c) spot strike rate volatility tm nsteps ty True True
               = (Some c, sum_list cashflow / real (unat (num_simulations c)))"
proof -
  define df where "df = exp (- rate * (tm / real nsteps))"
  define paths where
    "paths = lsm_gen_paths (unat (num_simulations c))
               (mco_gbm_path_init spot rate volatility tm nsteps) (rng c)"
  obtain cf1 ex1 where fin:
    "lsm_final c spot strike rate volatility tm nsteps ty = (paths, map (\<lambda>v. v * df) cf1, ex1)"
    and inv: "lsm_inv paths strike ty df nsteps 1 cf1 ex1"
    using lsm_final_inv [OF assms, where c = c and spot = spot and strike = strike and rate = rate
            and volatility = volatility and tm = tm and ty = ty]
    unfolding df_def paths_def by blast
  have len: "length paths = unat (num_simulations c)"
    by (simp add: paths_def lsm_gen_paths_length)
  have lens: "length cf1 = unat (num_simulations c)" "length ex1 = unat (num_simulations c)"
    using inv len by (simp_all add: lsm_inv_def)
  have dfS: "df ^ nsteps = exp (- rate * tm)"
  proof -
    have "df ^ nsteps = exp (real nsteps * (- rate * (tm / real nsteps)))"
      unfolding df_def by (rule exp_of_nat_mult [symmetric])
    also have "real nsteps * (- rate * (tm / real nsteps)) = - rate * tm"
      using assms by simp
    finally show ?thesis .
  qed
  have each: "\<forall>i < unat (num_simulations c).
                 1 \<le> ex1 ! i \<and> ex1 ! i \<le> nsteps \<and>
                 map (\<lambda>v. v * df) cf1 ! i =
                   ((\<lambda>v. v * df) ^^ (ex1 ! i)) (mco_payoff (paths ! i ! (ex1 ! i)) strike ty) \<and>
                 (ex1 ! i = nsteps \<longrightarrow>
                    map (\<lambda>v. v * df) cf1 ! i = mco_payoff (paths ! i ! nsteps) strike ty * exp (- rate * tm))"
  proof (intro allI impI)
    fix i assume i: "i < unat (num_simulations c)"
    then have a: "1 \<le> ex1 ! i" "ex1 ! i \<le> nsteps"
      "cf1 ! i = mco_payoff (paths ! i ! (ex1 ! i)) strike ty * df ^ (ex1 ! i - 1)"
      using inv len by (simp_all add: lsm_inv_def)
    have "ex1 ! i = Suc (ex1 ! i - 1)" using a(1) by simp
    then have p: "df ^ (ex1 ! i - 1) * df = df ^ (ex1 ! i)"
      by (metis power_Suc2)
    have v: "map (\<lambda>v. v * df) cf1 ! i = mco_payoff (paths ! i ! (ex1 ! i)) strike ty * df ^ (ex1 ! i)"
      using i lens(1) a(3) p by (simp add: mult.assoc)
    show "1 \<le> ex1 ! i \<and> ex1 ! i \<le> nsteps \<and>
                 map (\<lambda>v. v * df) cf1 ! i =
                   ((\<lambda>v. v * df) ^^ (ex1 ! i)) (mco_payoff (paths ! i ! (ex1 ! i)) strike ty) \<and>
                 (ex1 ! i = nsteps \<longrightarrow>
                    map (\<lambda>v. v * df) cf1 ! i = mco_payoff (paths ! i ! nsteps) strike ty * exp (- rate * tm))"
      using a(1,2) v dfS by (auto simp: funpow_times)
  qed
  have price: "mco_lsm_american (Some c) spot strike rate volatility tm nsteps ty True True
               = (Some c, sum_list (map (\<lambda>v. v * df) cf1) / real (unat (num_simulations c)))"
    using assms by (simp add: mco_lsm_american_def fin foldl_add_sum_list)
  have lm: "length (map (\<lambda>v. v * df) cf1) = unat (num_simulations c)"
    using lens(1) by simp
  show ?thesis
    unfolding fin df_def [symmetric] prod.case
    by (intro conjI) (rule len lm lens(2) each price)+
qed

theorem lsm_cashflows_witness:
  "(2 :: nat) \<noteq> 0 \<and>
   (case lsm_final \<lparr>num_simulations = 2, num_steps = 2, seed = 42, num_threads = 1,
        antithetic_enabled = 0, control_variates_enabled = 0, stratified_enabled = 0,
        model = 0, sabr_alpha = 0, sabr_beta = 1, sabr_rho = 0, sabr_nu = 0,
        rng = mco_rng_seed 42, last_error = MCO_OK\<rparr> 100 100 (5 / 100) (2 / 10) 1 2 MCO_PUT of
      (paths, cashflow, exercise_time) \<Rightarrow>
        length cashflow = 2 \<and>
        1 \<le> exercise_time ! 0 \<and> exercise_time ! 0 \<le> 2 \<and>
        cashflow ! 0 =
          ((\<lambda>v. v * exp (- (5 / 100) * (1 / real (2 :: nat)))) ^^ (exercise_time ! 0))
            (mco_payoff (paths ! 0 ! (exercise_time ! 0)) 100 MCO_PUT) \<and>
        1 \<le> exercise_time ! 1 \<and> exercise_time ! 1 \<le> 2 \<and>
        cashflow ! 1 =
          ((\<lambda>v. v * exp (- (5 / 100) * (1 / real (2 :: nat)))) ^^ (exercise_time ! 1))
            (mco_payoff (paths ! 1 ! (exercise_time ! 1)) 100 MCO_PUT) \<and>
        mco_lsm_american (Some \<lparr>num_simulations = 2, num_steps = 2, seed = 42, num_threads = 1,
        antithetic_enabled = 0, control_variates_enabled = 0, stratified_enabled = 0,
        model = 0, sabr_alpha = 0, sabr_beta = 1, sabr_rho = 0, sabr_nu = 0,
        rng = mco_rng_seed 42, last_error = MCO_OK\<rparr>) 100 100 (5 / 100) (2 / 10) 1 2 MCO_PUT True True
          = (Some \<lparr>num_simulations = 2, num_steps = 2, seed = 42, num_threads = 1,
        antithetic_enabled = 0, control_variates_enabled = 0, stratified_enabled = 0,
        model = 0, sabr_alpha = 0, sabr_beta = 1, sabr_rho = 0, sabr_nu = 0,
        rng = mco_rng_seed 42, last_error = MCO_OK\<rparr>, sum_list cashflow / 2))"
proof -
  define c0 where "c0 = \<lparr>num_simulations = 2, num_steps = 2, seed = 42, num_threads = 1,
        antithetic_enabled = 0, control_variates_enabled = 0, stratified_enabled = 0,
        model = 0, sabr_alpha = 0, sabr_beta = 1, sabr_rho = 0, sabr_nu = 0,
        rng = mco_rng_seed 42, last_error = MCO_OK\<rparr>"
  have n2: "unat (num_simulations c0) = 2" by (simp add: c0_def)
  have nz: "(2 :: nat) \<noteq> 0" by simp
  obtain paths cashflow exercise_time where
    f: "lsm_final c0 100 100 (5 / 100) (2 / 10) 1 2 MCO_PUT = (paths, cashflow, exercise_time)"
    by (cases "lsm_final c0 100 100 (5 / 100) (2 / 10) 1 2 MCO_PUT") auto
  have t: "length cashflow = 2 \<and>
        (\<forall>i < 2.
            1 \<le> exercise_time ! i \<and> exercise_time ! i \<le> 2 \<and>
            cashflow ! i =
              ((\<lambda>v. v * exp (- (5 / 100) * (1 / real (2 :: nat)))) ^^ (exercise_time ! i))
                (mco_payoff (paths ! i ! (exercise_time ! i)) 100 MCO_PUT) \<and>
            (exercise_time ! i = 2 \<longrightarrow>
               cashflow ! i = mco_payoff (paths ! i ! 2) 100 MCO_PUT * exp (- (5 / 100) * 1))) \<and>
        mco_lsm_american (Some c0) 100 100 (5 / 100) (2 / 10) 1 2 MCO_PUT True True
          = (Some c0, sum_list cashflow / real (2 :: nat))"
    using lsm_cashflows_discounted [OF nz, where c = c0 and spot = 100 and strike = 100
            and rate = "5 / 100" and volatility = "2 / 10" and tm = 1 and ty = MCO_PUT]
    unfolding f prod.case n2 by blast
  have i0: "(0 :: nat) < 2" and i1: "(1 :: nat) < 2" by simp_all
  have "length cashflow = 2 \<and>
        1 \<le> exercise_time ! 0 \<and> exercise_time ! 0 \<le> 2 \<and>
        cashflow ! 0 =
          ((\<lambda>v. v * exp (- (5 / 100) * (1 / real (2 :: nat)))) ^^ (exercise_time ! 0))
            (mco_payoff (paths ! 0 ! (exercise_time ! 0)) 100 MCO_PUT) \<and>
        1 \<le> exercise_time ! 1 \<and> exercise_time ! 1 \<le> 2 \<and>
        cashflow ! 1 =
          ((\<lambda>v. v * exp (- (5 / 100) * (1 / real (2 :: nat)))) ^^ (exercise_time ! 1))
            (mco_payoff (paths ! 1 ! (exercise_time ! 1)) 100 MCO_PUT) \<and>
        mco_lsm_american (Some c0) 100 100 (5 / 100) (2 / 10) 1 2 MCO_PUT True True
          = (Some c0, sum_list cashflow / 2)"
    using t i0 i1 by (metis of_nat_numeral)
  then show ?thesis using nz unfolding c0_def [symmetric] f prod.case by blast
qed

section \<open>Path pricers do not advance the master generator\<close>

lemma unchanged_same: "unchanged_but_error c (Some c)"
  by (simp add: unchanged_but_error_def)

lemma unchanged_error: "unchanged_but_error c (Some (c\<lparr>last_error := e\<rparr>))"
  by (simp add: unchanged_but_error_def)

lemma unchanged_rng: "unchanged_but_error c (Some c1) \<Longrightarrow> rng c1 = rng c"
  by (simp add: unchanged_but_error_def) (metis mco_ctx.select_convs(13) mco_ctx.surjective mco_ctx.update_convs(14))

lemma digital_frame:
  "fst (mco_price_digital (Some c) spot strike payout rate volatility tm dty oty) = Some c"
  by (simp add: mco_price_digital_def Let_def)

lemma digital_error_indep:
  "snd (mco_price_digital (Some (c\<lparr>last_error := e\<rparr>)) spot strike payout rate volatility tm dty oty)
     = snd (mco_price_digital (Some c) spot strike payout rate volatility tm dty oty)"
  by (simp add: mco_price_digital_def Let_def)

lemma barrier_frame:
  "fst (mco_price_barrier (Some c) spot strike h rebate rate volatility tm nsteps bty oty ok)
     = (if nsteps \<noteq> 0 \<and> \<not> ok then Some (c\<lparr>last_error := MCO_ERR_NOMEM\<rparr>) else Some c)"
  by (simp add: mco_price_barrier_def Let_def)

lemma barrier_error_indep:
  "snd (mco_price_barrier (Some (c\<lparr>last_error := e\<rparr>)) spot strike h rebate rate volatility tm
          nsteps bty oty ok)
     = snd (mco_price_barrier (Some c) spot strike h rebate rate volatility tm nsteps bty oty ok)"
  by (simp add: mco_price_barrier_def Let_def)

lemma asian_frame:
  "fst (mco_price_asian (Some c) spot strike rate volatility tm num_obs aty sty oty ok)
     = (if num_obs = 0 then Some c
        else if spot \<le> 0 \<or> strike \<le> 0 \<or> volatility < 0 \<or> tm < 0
        then Some (c\<lparr>last_error := MCO_ERR_INVALID_ARG\<rparr>)
        else if \<not> ok then Some (c\<lparr>last_error := MCO_ERR_NOMEM\<rparr>) else Some c)"
  by (simp add: mco_price_asian_def Let_def)

lemma asian_error_indep:
  "snd (mco_price_asian (Some (c\<lparr>last_error := e\<rparr>)) spot strike rate volatility tm num_obs
          aty sty oty ok)
     = snd (mco_price_asian (Some c) spot strike rate volatility tm num_obs aty sty oty ok)"
  by (simp add: mco_price_asian_def Let_def)

lemma lookback_frame:
  "fst (mco_price_lookback (Some c) spot strike rate volatility tm nsteps sty oty ok)
     = (if nsteps \<noteq> 0 \<and> \<not> ok then Some (c\<lparr>last_error := MCO_ERR_NOMEM\<rparr>) else Some c)"
  by (simp add: mco_price_lookback_def Let_def)

lemma lookback_error_indep:
  "snd (mco_price_lookback (Some (c\<lparr>last_error := e\<rparr>)) spot strike rate volatility tm nsteps
          sty oty ok)
     = snd (mco_price_lookback (Some c) spot strike rate volatility tm nsteps sty oty ok)"
  by (simp add: mco_price_lookback_def Let_def)

lemma lsm_final_error_indep:
  "lsm_final (c\<lparr>last_error := e\<rparr>) spot strike rate volatility tm nsteps ty
     = lsm_final c spot strike rate volatility tm nsteps ty"
  by (simp add: lsm_final_def)

lemma lsm_frame:
  "fst (mco_lsm_american (Some c) spot strike rate volatility tm nsteps ty ok1 ok2)
     = (if nsteps \<noteq> 0 \<and> (\<not> ok1 \<or> \<not> ok2) then Some (c\<lparr>last_error := MCO_ERR_NOMEM\<rparr>)
        else Some c)"
  by (simp add: mco_lsm_american_def Let_def split: prod.splits)

lemma lsm_error_indep:
  "snd (mco_lsm_american (Some (c\<lparr>last_error := e\<rparr>)) spot strike rate volatility tm nsteps ty
          ok1 ok2)
     = snd (mco_lsm_american (Some c) spot strike rate volatility tm nsteps ty ok1 ok2)"
  by (simp add: mco_lsm_american_def Let_def lsm_final_error_indep split: prod.splits)

text \<open>
  C10. The digital, barrier, Asian, lookback and least-squares American pricers return the
  context with every field but the last-error slot as it was, the master generator included,
  and a second call with the same arguments (and the same outcome of the allocations) on the
  context left by the first returns the same price.
\<close>

theorem path_pricers_keep_context:
  "unchanged_but_error c
     (fst (mco_price_digital (Some c) spot strike payout rate volatility tm dty oty)) \<and>
   map_option rng (fst (mco_price_digital (Some c) spot strike payout rate volatility tm dty oty))
     = Some (rng c) \<and>
   snd (mco_price_digital
          (fst (mco_price_digital (Some c) spot strike payout rate volatility tm dty oty))
          spot strike payout rate volatility tm dty oty)
     = snd (mco_price_digital (Some c) spot strike payout rate volatility tm dty oty) \<and>
   unchanged_but_error c
     (fst (mco_price_barrier (Some c) spot strike h rebate rate volatility tm nsteps bty oty ok)) \<and>
   map_option rng
     (fst (mco_price_barrier (Some c) spot strike h rebate rate volatility tm nsteps bty oty ok))
     = Some (rng c) \<and>
   snd (mco_price_barrier
          (fst (mco_price_barrier (Some c) spot strike h rebate rate volatility tm nsteps bty oty ok))
          spot strike h rebate rate volatility tm nsteps bty oty ok)
     = snd (mco_price_barrier (Some c) spot strike h rebate rate volatility tm nsteps bty oty ok) \<and>
   unchanged_but_error c
     (fst (mco_price_asian (Some c) spot strike rate volatility tm num_obs aty asty oty ok)) \<and>
   map_option rng
     (fst (mco_price_asian (Some c) spot strike rate volatility tm num_obs aty asty oty ok))
     = Some (rng c) \<and>
   snd (mco_price_asian
          (fst (mco_price_asian (Some c) spot strike rate volatility tm num_obs aty asty oty ok))
          spot strike rate volatility tm num_obs aty asty oty ok)
     = snd (mco_price_asian (Some c) spot strike rate volatility tm num_obs aty asty oty ok) \<and>
   unchanged_but_error c
     (fst (mco_price_lookback (Some c) spot strike rate volatility tm nsteps lsty oty ok)) \<and>
   map_option rng
     (fst (mco_price_lookback (Some c) spot strike rate volatility tm nsteps lsty oty ok))
     = Some (rng c) \<and>
   snd (mco_price_lookback
          (fst (mco_price_lookback (Some c) spot strike rate volatility tm nsteps lsty oty ok))
          spot strike rate volatility tm nsteps lsty oty ok)
     = snd (mco_price_lookback (Some c) spot strike rate volatility tm nsteps lsty oty ok) \<and>
   unchanged_but_error c
     (fst (mco_lsm_american (Some c) spot strike rate volatility tm nsteps oty ok ok2)) \<and>
   map_option rng
     (fst (mco_lsm_american (Some c) spot strike rate volatility tm nsteps oty ok ok2))
     = Some (rng c) \<and>
   snd (mco_lsm_american
          (fst (mco_lsm_american (Some c) spot strike rate volatility tm nsteps oty ok ok2))
          spot strike rate volatility tm nsteps oty ok ok2)
     = snd (mco_lsm_american (Some c) spot strike rate volatility tm nsteps oty ok ok2)"
proof -
  have d1: "unchanged_but_error c
     (fst (mco_price_digital (Some c) spot strike payout rate volatility tm dty oty))"
    by (simp add: digital_frame unchanged_same)
  have d2: "map_option rng
     (fst (mco_price_digital (Some c) spot strike payout rate volatility tm dty oty)) = Some (rng c)"
    by (simp add: digital_frame)
  have d3: "snd (mco_price_digital
          (fst (mco_price_digital (Some c) spot strike payout rate volatility tm dty oty))
          spot strike payout rate volatility tm dty oty)
     = snd (mco_price_digital (Some c) spot strike payout rate volatility tm dty oty)"
    by (simp add: digital_frame)
  have b1: "unchanged_but_error c
     (fst (mco_price_barrier (Some c) spot strike h rebate rate volatility tm nsteps bty oty ok))"
    by (simp add: barrier_frame unchanged_same unchanged_error)
  have b2: "map_option rng
     (fst (mco_price_barrier (Some c) spot strike h rebate rate volatility tm nsteps bty oty ok))
     = Some (rng c)"
    by (simp add: barrier_frame)
  have b3: "snd (mco_price_barrier
          (fst (mco_price_barrier (Some c) spot strike h rebate rate volatility tm nsteps bty oty ok))
          spot strike h rebate rate volatility tm nsteps bty oty ok)
     = snd (mco_price_barrier (Some c) spot strike h rebate rate volatility tm nsteps bty oty ok)"
    by (simp add: barrier_frame barrier_error_indep)
  have a1: "unchanged_but_error c
     (fst (mco_price_asian (Some c) spot strike rate volatility tm num_obs aty asty oty ok))"
    by (simp add: asian_frame unchanged_same unchanged_error)
  have a2: "map_option rng
     (fst (mco_price_asian (Some c) spot strike rate volatility tm num_obs aty asty oty ok))
     = Some (rng c)"
    by (simp add: asian_frame)
  have a3: "snd (mco_price_asian
          (fst (mco_price_asian (Some c) spot strike rate volatility tm num_obs aty asty oty ok))
          spot strike rate volatility tm num_obs aty asty oty ok)
     = snd (mco_price_asian (Some c) spot strike rate volatility tm num_obs aty asty oty ok)"
    by (simp add: asian_frame asian_error_indep)
  have l1: "unchanged_but_error c
     (fst (mco_price_lookback (Some c) spot strike rate volatility tm nsteps lsty oty ok))"
    by (simp add: lookback_frame unchanged_same unchanged_error)
  have l2: "map_option rng
     (fst (mco_price_lookback (Some c) spot strike rate volatility tm nsteps lsty oty ok))
     = Some (rng c)"
    by (simp add: lookback_frame)
  have l3: "snd (mco_price_lookback
          (fst (mco_price_lookback (Some c) spot strike rate volatility tm nsteps lsty oty ok))
          spot strike rate volatility tm nsteps lsty oty ok)
     = snd (mco_price_lookback (Some c) spot strike rate volatility tm nsteps lsty oty ok)"
    by (simp add: lookback_frame lookback_error_indep)
  have m1: "unchanged_but_error c
     (fst (mco_lsm_american (Some c) spot strike rate volatility tm nsteps oty ok ok2))"
    by (simp add: lsm_frame unchanged_same unchanged_error)
  have m2: "map_option rng
     (fst (mco_lsm_american (Some c) spot strike rate volatility tm nsteps oty ok ok2))
     = Some (rng c)"
    by (simp add: lsm_frame)
  have m3: "snd (mco_lsm_american
          (fst (mco_lsm_american (Some c) spot strike rate volatility tm nsteps oty ok ok2))
          spot strike rate volatility tm nsteps oty ok ok2)
     = snd (mco_lsm_american (Some c) spot strike rate volatility tm nsteps oty ok ok2)"
    by (simp add: lsm_frame lsm_error_indep)
  show ?thesis
    by (intro conjI) (rule d1 d2 d3 b1 b2 b3 a1 a2 a3 l1 l2 l3 m1 m2 m3)+
qed

section \<open>Rejection of invalid arguments\<close>

lemma european_rejects:
  assumes "spot \<le> 0 \<or> strike \<le> 0 \<or> volatility < 0 \<or> tm < 0"
  shows "mco_price_european (Some c) spot strike rate volatility tm ty wk th sp
           = (Some (c\<lparr>last_error := MCO_ERR_INVALID_ARG\<rparr>), 0)"
  using assms by (simp add: mco_price_european_def)

lemma american_rejects:
  assumes "spot \<le> 0 \<or> strike \<le> 0 \<or> volatility < 0 \<or> tm < 0"
  shows "mco_price_american (Some c) spot strike rate volatility tm nsteps ty oka okb
           = (Some (c\<lparr>last_error := MCO_ERR_INVALID_ARG\<rparr>), 0)"
  using assms by (simp add: mco_price_american_def)

lemma asian_rejects:
  assumes "spot \<le> 0 \<or> strike \<le> 0 \<or> volatility < 0 \<or> tm < 0" and "num_obs \<noteq> 0"
  shows "mco_price_asian (Some c) spot strike rate volatility tm num_obs aty asty oty ok
           = (Some (c\<lparr>last_error := MCO_ERR_INVALID_ARG\<rparr>), 0)"
  using assms by (simp add: mco_price_asian_def)

lemma asian_zero_obs:
  "mco_price_asian (Some c) spot strike rate volatility tm 0 aty asty oty ok = (Some c, 0)"
  by (simp add: mco_price_asian_def)

text \<open>
  C2, as the code has it.  With a non-null context and spot \<open>\<le> 0\<close>, strike \<open>\<le> 0\<close>,
  volatility \<open>< 0\<close> or time to maturity \<open>< 0\<close>, the European and the American pricer set
  the last-error slot to invalid-argument and return zero; the Asian pricer does so when its
  observation count is not zero, and with a zero count it returns zero and leaves the
  context as it was.
\<close>

theorem pricers_reject_invalid_arguments:
  assumes "spot \<le> 0 \<or> strike \<le> 0 \<or> volatility < 0 \<or> tm < 0"
  shows "mco_price_european (Some c) spot strike rate volatility tm ty wk th sp
           = (Some (c\<lparr>last_error := MCO_ERR_INVALID_ARG\<rparr>), 0) \<and>
         mco_price_american (Some c) spot strike rate volatility tm nsteps ty oka okb
           = (Some (c\<lparr>last_error := MCO_ERR_INVALID_ARG\<rparr>), 0) \<and>
         (num_obs \<noteq> 0 \<longrightarrow>
            mco_price_asian (Some c) spot strike rate volatility tm num_obs aty asty ty ok
              = (Some (c\<lparr>last_error := MCO_ERR_INVALID_ARG\<rparr>), 0)) \<and>
         mco_price_asian (Some c) spot strike rate volatility tm 0 aty asty ty ok = (Some c, 0)"
proof (intro conjI impI)
  show "mco_price_european (Some c) spot strike rate volatility tm ty wk th sp
           = (Some (c\<lparr>last_error := MCO_ERR_INVALID_ARG\<rparr>), 0)"
    by (rule european_rejects [OF assms])
  show "mco_price_american (Some c) spot strike rate volatility tm nsteps ty oka okb
           = (Some (c\<lparr>last_error := MCO_ERR_INVALID_ARG\<rparr>), 0)"
    by (rule american_rejects [OF assms])
  show "mco_price_asian (Some c) spot strike rate volatility tm 0 aty asty ty ok = (Some c, 0)"
    by (rule asian_zero_obs)
next
  assume "num_obs \<noteq> 0"
  then show "mco_price_asian (Some c) spot strike rate volatility tm num_obs aty asty ty ok
              = (Some (c\<lparr>last_error := MCO_ERR_INVALID_ARG\<rparr>), 0)"
    by (rule asian_rejects [OF assms])
qed

theorem pricers_reject_invalid_arguments_witness:
  "((- 1 :: real) \<le> 0 \<or> (100 :: real) \<le> 0 \<or> (2 / 10 :: real) < 0 \<or> (1 :: real) < 0) \<and>
   mco_price_european (mco_ctx_new True) (- 1) 100 (5 / 100) (2 / 10) 1 MCO_CALL True True None
     = (Some ((the (mco_ctx_new True))\<lparr>last_error := MCO_ERR_INVALID_ARG\<rparr>), 0) \<and>
   mco_price_american (mco_ctx_new True) (- 1) 100 (5 / 100) (2 / 10) 1 50 MCO_CALL True True
     = (Some ((the (mco_ctx_new True))\<lparr>last_error := MCO_ERR_INVALID_ARG\<rparr>), 0) \<and>
   mco_price_asian (mco_ctx_new True) (- 1) 100 (5 / 100) (2 / 10) 1 12 MCO_ASIAN_ARITHMETIC
       MCO_ASIAN_FIXED_STRIKE MCO_CALL True
     = (Some ((the (mco_ctx_new True))\<lparr>last_error := MCO_ERR_INVALID_ARG\<rparr>), 0)"
proof -
  have h: "(- 1 :: real) \<le> 0 \<or> (100 :: real) \<le> 0 \<or> (2 / 10 :: real) < 0 \<or> (1 :: real) < 0"
    by simp
  have s: "mco_ctx_new True = Some (the (mco_ctx_new True))"
    by (simp add: mco_ctx_new_def)
  have n: "(12 :: nat) \<noteq> 0" by simp
  show ?thesis
    using pricers_reject_invalid_arguments
            [OF h, where c = "the (mco_ctx_new True)" and rate = "5 / 100" and ty = MCO_CALL
               and wk = True and th = True and sp = None and nsteps = 50 and oka = True
               and okb = True and num_obs = 12 and aty = MCO_ASIAN_ARITHMETIC
               and asty = MCO_ASIAN_FIXED_STRIKE and ok = True]
      h n s
    by simp
qed

text \<open>
  C2, as stated, fails for the Asian pricer: on a fresh context, with a negative spot and a
  zero observation count, the guard on the count returns zero first and the last-error slot
  is still success.
\<close>

theorem asian_zero_observations_silent:
  "mco_ctx_last_error (mco_ctx_new True) = MCO_OK \<and>
   mco_price_asian (mco_ctx_new True) (- 1) 100 (5 / 100) (2 / 10) 1 0 MCO_ASIAN_ARITHMETIC
       MCO_ASIAN_FIXED_STRIKE MCO_CALL True = (mco_ctx_new True, 0) \<and>
   mco_ctx_last_error
     (fst (mco_price_asian (mco_ctx_new True) (- 1) 100 (5 / 100) (2 / 10) 1 0
             MCO_ASIAN_ARITHMETIC MCO_ASIAN_FIXED_STRIKE MCO_CALL True))
     \<noteq> MCO_ERR_INVALID_ARG"
  by (simp add: mco_price_asian_def mco_ctx_new_def mco_ctx_last_error_def)

text \<open>
  The digital, barrier and lookback pricers have no check of their arguments.  With a
  negative spot every terminal value is negative, so a cash-or-nothing put pays on every
  path: the digital pricer returns the discounted payout and the error slot stays success.
  The barrier and lookback pricers return the context untouched whenever the step count is
  positive and the allocation succeeds.
\<close>

lemma digital_put_negative_spot_loop:
  assumes "gbm_spot m < 0" and "0 \<le> strike"
  shows "digital_loop k m strike payout MCO_DIGITAL_CASH MCO_PUT g acc = acc + real k * payout"
proof (induction k arbitrary: g acc)
  case 0
  show ?case by simp
next
  case (Suc k)
  obtain z g1 where zg: "mco_rng_normal g = (z, g1)" by (cases "mco_rng_normal g")
  have "mco_gbm_terminal m z < 0"
    unfolding mco_gbm_terminal_def using assms(1) by (simp add: mult_neg_pos)
  then have lt: "mco_gbm_terminal m z < strike" using assms(2) by simp
  have "digital_loop (Suc k) m strike payout MCO_DIGITAL_CASH MCO_PUT g acc
          = digital_loop k m strike payout MCO_DIGITAL_CASH MCO_PUT g1 (acc + payout)"
    using lt by (simp add: mco_gbm_simulate_def zg Let_def)
  also have "\<dots> = acc + payout + real k * payout" by (rule Suc.IH)
  finally show ?case by (simp add: algebra_simps)
qed

lemma digital_accepts_negative_spot:
  "mco_ctx_last_error (mco_ctx_new True) = MCO_OK \<and>
   mco_price_digital (mco_ctx_new True) (- 1) 100 1 (5 / 100) (2 / 10) 1 MCO_DIGITAL_CASH MCO_PUT
     = (mco_ctx_new True, exp (- (5 / 100)))"
proof -
  define m where "m = mco_gbm_init (- 1) (5 / 100) (2 / 10) 1"
  define c0 where "c0 = the (mco_ctx_new True)"
  have ctx: "mco_ctx_new True = Some c0" by (simp add: c0_def mco_ctx_new_def)
  have ns: "unat (num_simulations c0) = 100000"
    by (simp add: c0_def mco_ctx_new_def MCO_DEFAULT_SIMULATIONS_def)
  have er: "last_error c0 = MCO_OK" by (simp add: c0_def mco_ctx_new_def)
  have sp: "gbm_spot m < 0" by (simp add: m_def mco_gbm_init_def)
  have dc: "gbm_discount m = exp (- (5 / 100))" by (simp add: m_def mco_gbm_init_def)
  have lp: "digital_loop 100000 m 100 1 MCO_DIGITAL_CASH MCO_PUT (rng c0) 0 = 100000"
    using digital_put_negative_spot_loop [OF sp, where strike = 100 and k = 100000
            and payout = 1 and g = "rng c0" and acc = 0]
    by simp
  have "mco_price_digital (Some c0) (- 1) 100 1 (5 / 100) (2 / 10) 1 MCO_DIGITAL_CASH MCO_PUT
          = (Some c0, gbm_discount m
               * (digital_loop (unat (num_simulations c0)) m 100 1 MCO_DIGITAL_CASH MCO_PUT (rng c0) 0
                  / real (unat (num_simulations c0))))"
    by (simp only: mco_price_digital_def Let_def option.case m_def)
  also have "\<dots> = (Some c0, exp (- (5 / 100)))"
    unfolding ns lp dc by simp
  finally show ?thesis
    using er by (simp add: ctx mco_ctx_last_error_def)
qed

lemma barrier_lookback_never_flag_arguments:
  "fst (mco_price_barrier (Some c) spot strike h rebate rate volatility tm nsteps bty oty True)
     = Some c \<and>
   fst (mco_price_lookback (Some c) spot strike rate volatility tm nsteps sty oty True) = Some c"
  by (simp add: barrier_frame lookback_frame)

end
